theory Spec2Isabelle
  imports Complex_Main "HOL-Library.Sublist" "HOL-Library.AList"
begin

section \<open>Python values shared by the modules\<close>

text \<open>
  The exceptions the modelled code raises or receives from the standard library, each with
  the message \<open>str(e)\<close> returns. A function that can raise returns \<open>py_exn + 'a\<close>, with
  \<open>Inl\<close> for the exception.
\<close>

datatype py_exn =
    FileNotFoundError string
  | RuntimeError string
  | OSError string
  | KeyError string
  | TimeoutExpired string

fun str :: "py_exn \<Rightarrow> string" where
  "str (FileNotFoundError msg) = msg"
| "str (RuntimeError msg) = msg"
| "str (OSError msg) = msg"
| "str (KeyError msg) = msg"
| "str (TimeoutExpired msg) = msg"

text \<open>Decimal rendering of a Python int, as an f-string does it.\<close>

fun digits :: "nat \<Rightarrow> string" where
  "digits n = (if n < 10 then [char_of (48 + n)] else digits (n div 10) @ [char_of (48 + n mod 10)])"

definition str_int :: "int \<Rightarrow> string" where
  "str_int i = (if i < 0 then CHR ''-'' # digits (nat (- i)) else digits (nat i))"

section \<open>The protocol client (uci_interface.py, class UCIEngine): process handling\<close>

text \<open>
  The operating system is a parameter. \<open>path_exists\<close> is \<open>Path.exists()\<close>; \<open>popen\<close> is
  \<open>subprocess.Popen\<close> on the path, which raises when the file cannot be executed and
  otherwise yields the new process.

  Of a process the model keeps whether it is still running (\<open>alive\<close>) and two facts of
  the external program's behaviour: whether a write to its standard input goes through
  while it runs (\<open>accepts_input\<close>), and whether it exits within the five seconds
  \<open>quit\<close> waits after the \<open>quit\<close> command (\<open>obeys_quit\<close>).
\<close>

record proc =
  alive :: bool
  accepts_input :: bool
  obeys_quit :: bool

record world =
  path_exists :: "string \<Rightarrow> bool"
  popen :: "string \<Rightarrow> py_exn + proc"

text \<open>
  The client object. The two dictionaries keep insertion order, so they are association
  lists: \<open>options\<close> maps an option name to its info dictionary, which maps the keys
  \<open>raw\<close>, \<open>type\<close> and \<open>default\<close> to strings.
\<close>

type_synonym option_info = "(string \<times> string) list"

record engine =
  engine_path :: string
  timeout :: int
  process :: "proc option"
  running :: bool
  name :: string
  author :: string
  options :: "(string \<times> option_info) list"
  supports_mate_search :: bool

text \<open>\<open>__init__\<close>: raises \<open>FileNotFoundError\<close> when the path does not exist.\<close>

definition UCIEngine :: "world \<Rightarrow> string \<Rightarrow> int \<Rightarrow> py_exn + engine" where
  "UCIEngine W path tmo =
     (if \<not> path_exists W path then Inl (FileNotFoundError (''Engine not found: '' @ path))
      else Inr \<lparr>engine_path = path, timeout = tmo, process = None, running = False,
                name = ''Unknown'', author = ''Unknown'', options = [],
                supports_mate_search = False\<rparr>)"

text \<open>
  \<open>start\<close>: the whole body is inside \<open>try\<close>; \<open>except Exception\<close> logs and returns
  \<open>False\<close>. The result is the updated client and what the call did: \<open>Inr\<close> of the
  returned bool, or \<open>Inl\<close> of an exception leaving the method.
\<close>

definition start :: "world \<Rightarrow> engine \<Rightarrow> engine \<times> (py_exn + bool)" where
  "start W e =
     (case popen W (engine_path e) of
        Inl exn \<Rightarrow> (e, Inr False)
      | Inr p \<Rightarrow> (e\<lparr>process := Some p, running := True\<rparr>, Inr True))"

text \<open>
  \<open>send_command\<close>: \<open>RuntimeError\<close> without a process; a failed write is logged and
  raised again. A write fails when the process has exited (broken pipe) or has closed
  its input.
\<close>

definition send_command :: "engine \<Rightarrow> string \<Rightarrow> py_exn + unit" where
  "send_command e command =
     (case process e of
        None \<Rightarrow> Inl (RuntimeError ''Engine not started'')
      | Some p \<Rightarrow>
          if alive p \<and> accepts_input p then Inr ()
          else Inl (OSError ''Broken pipe''))"

text \<open>\<open>Popen.wait(timeout=5)\<close> after \<open>quit\<close> was written, and \<open>Popen.kill()\<close>.\<close>

definition wait :: "proc \<Rightarrow> py_exn + proc" where
  "wait p =
     (if \<not> alive p \<or> obeys_quit p then Inr (p\<lparr>alive := False\<rparr>)
      else Inl (TimeoutExpired ''timed out after 5 seconds''))"

definition kill :: "proc \<Rightarrow> proc" where
  "kill p = p\<lparr>alive := False\<rparr>"

text \<open>
  \<open>quit\<close>. The \<open>try\<close> block, when there is a process: send \<open>quit\<close>, clear \<open>running\<close>,
  wait. \<open>quit_try\<close> gives the client as the block leaves it and the exception that ended
  it, if any. The handler of \<open>except Exception\<close> kills the process when there is one.
  \<open>process\<close> is never reset to \<open>None\<close>. \<open>quit\<close> is \<open>Inr\<close> of the client when the method
  returns and \<open>Inl\<close> when an exception leaves it.
\<close>

definition quit_try :: "engine \<Rightarrow> engine \<times> py_exn option" where
  "quit_try e =
     (case process e of
        None \<Rightarrow> (e, None)
      | Some p \<Rightarrow>
          (case send_command e ''quit'' of
             Inl exn \<Rightarrow> (e, Some exn)
           | Inr _ \<Rightarrow>
               (let e1 = e\<lparr>running := False\<rparr>
                in case wait p of
                     Inl exn \<Rightarrow> (e1, Some exn)
                   | Inr p' \<Rightarrow> (e1\<lparr>process := Some p'\<rparr>, None))))"

definition quit_except :: "engine \<Rightarrow> py_exn + engine" where
  "quit_except e =
     (case process e of
        None \<Rightarrow> Inr e
      | Some p \<Rightarrow> Inr (e\<lparr>process := Some (kill p)\<rparr>))"

definition quit :: "engine \<Rightarrow> py_exn + engine" where
  "quit e =
     (case quit_try e of
        (e', None) \<Rightarrow> Inr e'
      | (e', Some exn) \<Rightarrow> quit_except e')"

section \<open>The protocol client: strings and the option parser\<close>

text \<open>
  Python strings are lists of characters; a character is a code point below 256. The
  classes are Python's for such code points: \<open>is_space\<close> is \<open>str.isspace\<close> (the class
  \<open>\s\<close> of \<open>re\<close> and what \<open>strip\<close> removes), \<open>is_word\<close> is the class \<open>\w\<close>. \<open>contains a b\<close>
  is \<open>a in b\<close>. \<open>re_search key cls s\<close> is \<open>re.search\<close> for the literal \<open>key\<close> followed by
  one group of one or more characters of the class \<open>cls\<close> (greedy): the group of the
  leftmost match, \<open>None\<close> without a match.
\<close>

definition is_space :: "char \<Rightarrow> bool" where
  "is_space c = (let n = (of_char c :: nat) in (9 \<le> n \<and> n \<le> 13) \<or> (28 \<le> n \<and> n \<le> 32) \<or> n = 133 \<or> n = 160)"

definition is_word :: "char \<Rightarrow> bool" where
  "is_word c = (let n = (of_char c :: nat) in
     (48 \<le> n \<and> n \<le> 57) \<or> (65 \<le> n \<and> n \<le> 90) \<or> n = 95 \<or> (97 \<le> n \<and> n \<le> 122)
     \<or> n = 170 \<or> n = 178 \<or> n = 179 \<or> n = 181 \<or> n = 185 \<or> n = 186
     \<or> (188 \<le> n \<and> n \<le> 190) \<or> (192 \<le> n \<and> n \<le> 214) \<or> (216 \<le> n \<and> n \<le> 246)
     \<or> 248 \<le> n)"

definition lower :: "string \<Rightarrow> string" where
  "lower s = map (\<lambda>c. let n = (of_char c :: nat) in
       if (65 \<le> n \<and> n \<le> 90) \<or> (192 \<le> n \<and> n \<le> 222 \<and> n \<noteq> 215) then char_of (n + 32) else c) s"

definition strip :: "string \<Rightarrow> string" where
  "strip s = rev (dropWhile is_space (rev (dropWhile is_space s)))"

definition startswith :: "string \<Rightarrow> string \<Rightarrow> bool" where
  "startswith s p = prefix p s"

fun contains :: "string \<Rightarrow> string \<Rightarrow> bool" where
  "contains needle [] = (needle = [])"
| "contains needle (c # cs) = (prefix needle (c # cs) \<or> contains needle cs)"

fun re_search :: "string \<Rightarrow> (char \<Rightarrow> bool) \<Rightarrow> string \<Rightarrow> string option" where
  "re_search key cls [] = None"
| "re_search key cls (c # cs) =
     (if prefix key (c # cs) \<and> takeWhile cls (drop (length key) (c # cs)) \<noteq> []
      then Some (takeWhile cls (drop (length key) (c # cs)))
      else re_search key cls cs)"

text \<open>
  \<open>re.match(r'option name (.+?)(?:\s+type\s+(.+))?$', line)\<close> on a line without a
  newline character (the reader thread puts lines on the queue after \<open>readline\<close> and
  \<open>strip\<close>, so none has one; then \<open>.\<close> matches every character and \<open>$\<close> only the end).
  \<open>match_type_group tail\<close> matches the optional group and the end against the text after
  the name: all leading white space (it must be followed by \<open>t\<close>), the word \<open>type\<close>,
  white space (greedy, giving back one character when nothing else is left for the
  group), and the rest as group 2. \<open>match_name\<close> is the lazy group 1: the shortest name,
  of at least one character, after which the optional group matches or the line ends.
\<close>

definition match_type_group :: "string \<Rightarrow> string option" where
  "match_type_group tail =
     (let r1 = dropWhile is_space tail in
      if takeWhile is_space tail = [] \<or> \<not> prefix ''type'' r1 then None
      else
        (let r2 = drop 4 r1; m = length (takeWhile is_space r2) in
         if m = 0 then None
         else if drop m r2 \<noteq> [] then Some (drop m r2)
         else if 2 \<le> m then Some (drop (m - 1) r2)
         else None))"

fun match_name :: "string \<Rightarrow> string \<Rightarrow> (string \<times> string option) option" where
  "match_name acc tail =
     (case match_type_group tail of
        Some g2 \<Rightarrow> Some (acc, Some g2)
      | None \<Rightarrow>
          (case tail of
             [] \<Rightarrow> Some (acc, None)
           | c # cs \<Rightarrow> match_name (acc @ [c]) cs))"

text \<open>The two groups of the match, \<open>None\<close> when the pattern does not match.\<close>

definition match_option_line :: "string \<Rightarrow> (string \<times> string option) option" where
  "match_option_line line =
     (if prefix ''option name '' line
      then (case drop 12 line of [] \<Rightarrow> None | c # cs \<Rightarrow> match_name [c] cs)
      else None)"

text \<open>
  \<open>_parse_option\<close>. \<open>option_entry\<close> is the name and the info dictionary the method
  stores with \<open>self.options[name] = option_info\<close>, \<open>None\<close> when the pattern does not
  match. \<open>rest\<close> is group 2, the text after the keyword \<open>type\<close>, or the empty
  string. The info dictionary starts as \<open>{"raw": line}\<close>; \<open>type\<close> is added when \<open>rest\<close>
  contains \<open>type\<close> and \<open>type (\w+)\<close> is found in it, \<open>default\<close> when \<open>rest\<close> contains
  \<open>default\<close> and \<open>default (\S+)\<close> is found in it. Nothing else is added.
\<close>

definition option_entry :: "string \<Rightarrow> (string \<times> option_info) option" where
  "option_entry line =
     (case match_option_line line of
        None \<Rightarrow> None
      | Some (g1, g2) \<Rightarrow>
          (let nm = strip g1;
               rest = (case g2 of None \<Rightarrow> [] | Some r \<Rightarrow> r);
               info0 = [(''raw'', line)];
               info1 = (if contains ''type'' rest
                        then (case re_search ''type '' is_word rest of
                                Some t \<Rightarrow> AList.update ''type'' t info0
                              | None \<Rightarrow> info0)
                        else info0);
               info2 = (if contains ''default'' rest
                        then (case re_search ''default '' (\<lambda>c. \<not> is_space c) rest of
                                Some d \<Rightarrow> AList.update ''default'' d info1
                              | None \<Rightarrow> info1)
                        else info1)
           in Some (nm, info2)))"

definition parse_option :: "engine \<Rightarrow> string \<Rightarrow> engine" where
  "parse_option e line =
     (case option_entry line of
        None \<Rightarrow> e
      | Some (nm, option_info) \<Rightarrow> e\<lparr>options := AList.update nm option_info (options e)\<rparr>)"


section \<open>The protocol client: the handshake\<close>

text \<open>
  The output queue and the clock. The \<open>k\<close>-th call of \<open>output_queue.get(timeout=0.1)\<close>
  blocks for \<open>fst (ev k)\<close> milliseconds and then yields the line \<open>snd (ev k)\<close>, or raises
  \<open>queue.Empty\<close> when that is \<open>None\<close>. \<open>clock\<close> is \<open>time.time()\<close> in milliseconds, \<open>cursor\<close>
  the number of calls of \<open>get\<close> made. Only waiting on the queue takes time.
\<close>

record io =
  clock :: int
  cursor :: nat

type_synonym events = "nat \<Rightarrow> nat \<times> string option"

definition poll :: "events \<Rightarrow> io \<Rightarrow> io" where
  "poll ev w = w\<lparr>clock := clock w + int (fst (ev (cursor w))), cursor := cursor w + 1\<rparr>"

text \<open>
  The loop of \<open>read_until\<close>, \<open>timeout_ms\<close> being the timeout in milliseconds. Nothing
  bounds the number of iterations but the clock, so the loop is a partial function:
  \<open>None\<close> when it does not return.
\<close>

partial_function (option) read_until_loop ::
  "events \<Rightarrow> string \<Rightarrow> int \<Rightarrow> int \<Rightarrow> io \<Rightarrow> string list \<Rightarrow> (string list \<times> io) option" where
  "read_until_loop ev expected timeout_ms start_time w lines =
     (if clock w - start_time < timeout_ms then
        (case snd (ev (cursor w)) of
           None \<Rightarrow> read_until_loop ev expected timeout_ms start_time (poll ev w) lines
         | Some line \<Rightarrow>
             if contains expected line then Some (lines @ [line], poll ev w)
             else read_until_loop ev expected timeout_ms start_time (poll ev w) (lines @ [line]))
      else Some (lines, w))"

definition read_until :: "events \<Rightarrow> engine \<Rightarrow> string \<Rightarrow> int option \<Rightarrow> io \<Rightarrow> (string list \<times> io) option" where
  "read_until ev e expected tmo w =
     read_until_loop ev expected (1000 * (case tmo of None \<Rightarrow> timeout e | Some t \<Rightarrow> t)) (clock w) w []"

text \<open>\<open>is_ready\<close>: the body is inside \<open>try\<close>; the handler returns \<open>False\<close>.\<close>

definition is_ready :: "events \<Rightarrow> engine \<Rightarrow> int \<Rightarrow> io \<Rightarrow> (io \<times> (py_exn + bool)) option" where
  "is_ready ev e tmo w =
     (case send_command e ''isready'' of
        Inl exn \<Rightarrow> Some (w, Inr False)
      | Inr _ \<Rightarrow>
          (case read_until ev e ''readyok'' (Some tmo) w of
             None \<Rightarrow> None
           | Some (lines, w') \<Rightarrow> Some (w', Inr (list_ex (contains ''readyok'') lines))))"

text \<open>The loop over the handshake lines, and the client after it with the mate-search
  flag set.\<close>

definition parse_line :: "engine \<Rightarrow> string \<Rightarrow> engine" where
  "parse_line e line =
     (if startswith line ''id name'' then e\<lparr>name := strip (drop 8 line)\<rparr>
      else if startswith line ''id author'' then e\<lparr>author := strip (drop 10 line)\<rparr>
      else if startswith line ''option name'' then parse_option e line
      else e)"

definition parse_info :: "engine \<Rightarrow> string list \<Rightarrow> engine" where
  "parse_info e lines =
     (let e1 = foldl parse_line e lines
      in e1\<lparr>supports_mate_search := list_ex (\<lambda>opt. contains ''mate'' (lower opt)) (map fst (options e1))\<rparr>)"

text \<open>
  \<open>initialize\<close>. \<open>initialize_try\<close> is the \<open>try\<close> block: the client and the clock as the
  block leaves them, with the value it returns or the exception that ends it (only
  \<open>send_command\<close> raises). The handler of \<open>except Exception\<close> returns \<open>False\<close>. The value
  is \<open>None\<close> when a wait on the queue does not return.
\<close>

definition initialize_try :: "events \<Rightarrow> engine \<Rightarrow> io \<Rightarrow> ((engine \<times> io) \<times> (py_exn + bool)) option" where
  "initialize_try ev e w =
     (case send_command e ''uci'' of
        Inl exn \<Rightarrow> Some ((e, w), Inl exn)
      | Inr _ \<Rightarrow>
          (case read_until ev e ''uciok'' (Some 10) w of
             None \<Rightarrow> None
           | Some (lines, w1) \<Rightarrow>
               if \<not> list_ex (contains ''uciok'') lines then Some ((e, w1), Inr False)
               else
                 (case is_ready ev (parse_info e lines) 5 w1 of
                    None \<Rightarrow> None
                  | Some (w2, Inl exn) \<Rightarrow> Some ((parse_info e lines, w2), Inl exn)
                  | Some (w2, Inr ready) \<Rightarrow>
                      if \<not> ready then Some ((parse_info e lines, w2), Inr False)
                      else Some ((parse_info e lines, w2), Inr True))))"

definition initialize :: "events \<Rightarrow> engine \<Rightarrow> io \<Rightarrow> ((engine \<times> io) \<times> (py_exn + bool)) option" where
  "initialize ev e w =
     (case initialize_try ev e w of
        None \<Rightarrow> None
      | Some (s, Inl exn) \<Rightarrow> Some (s, Inr False)
      | Some (s, Inr b) \<Rightarrow> Some (s, Inr b))"

section \<open>One game (match.py, classes MatchResult and Match)\<close>

text \<open>
  The rules of chess are the external library \<open>chess\<close>. The model takes it as a
  parameter: \<open>'p\<close> is the state of a \<open>chess.Board\<close> (position and history), \<open>'m\<close> a
  \<open>chess.Move\<close>. \<open>from_uci\<close> is \<open>chess.Move.from_uci\<close>, with \<open>None\<close> where it raises;
  \<open>legal b mv\<close> is \<open>mv in b.legal_moves\<close>; \<open>push\<close> returns the board after
  \<open>b.push(mv)\<close>. \<open>game_text\<close> stands for \<open>_generate_pgn\<close>, which hands the headers and
  the moves to \<open>chess.pgn\<close>: it is a function of the paths, the time control, the increment
  and the three result fields it reads.
\<close>

datatype color = WHITE | BLACK

record ('p, 'm) rules =
  new_board :: 'p
  turn :: "'p \<Rightarrow> color"
  from_uci :: "string \<Rightarrow> 'm option"
  uci :: "'m \<Rightarrow> string"
  legal :: "'p \<Rightarrow> 'm \<Rightarrow> bool"
  push :: "'p \<Rightarrow> 'm \<Rightarrow> 'p"
  move_stack :: "'p \<Rightarrow> 'm list"
  is_game_over :: "'p \<Rightarrow> bool"
  is_checkmate :: "'p \<Rightarrow> bool"
  is_stalemate :: "'p \<Rightarrow> bool"
  is_insufficient_material :: "'p \<Rightarrow> bool"
  is_fifty_moves :: "'p \<Rightarrow> bool"
  is_repetition :: "'p \<Rightarrow> bool"
  game_text :: "string \<Rightarrow> string \<Rightarrow> int \<Rightarrow> int \<Rightarrow> string option \<Rightarrow> string \<Rightarrow> string list \<Rightarrow> string"

text \<open>\<open>MatchResult\<close>; the clock and node fields are prefixed, the \<open>Match\<close> object has
  fields of the same names.\<close>

record match_result =
  winner :: "string option"
  reason :: string
  moves :: "string list"
  pgn :: string
  result_time_white :: int
  result_time_black :: int
  result_nodes_white :: int
  result_nodes_black :: int

definition MatchResult :: match_result where
  "MatchResult =
     \<lparr>winner = None, reason = [], moves = [], pgn = [],
      result_time_white = 0, result_time_black = 0,
      result_nodes_white = 0, result_nodes_black = 0\<rparr>"

text \<open>The arguments of \<open>Match.__init__\<close>.\<close>

record match_config =
  white_engine_path :: string
  black_engine_path :: string
  time_control :: int
  increment :: int
  opening_moves :: "string list"
  max_moves :: int

text \<open>The mutable part of a \<open>Match\<close> during \<open>play\<close>, with the local \<open>move_count\<close>.\<close>

record 'p match_state =
  board :: 'p
  move_count :: int
  time_white :: int
  time_black :: int
  nodes_white :: int
  nodes_black :: int

text \<open>
  What the two engines do in one run of \<open>play\<close> is a parameter too. \<open>handshake c\<close> is the
  value \<open>initialize()\<close> returns for the engine of colour \<open>c\<close>; \<open>new_game_raises c\<close> is
  the exception its \<open>new_game()\<close> raises, if any; \<open>search k\<close> is what happens in the loop
  iteration entered with \<open>move_count = k\<close>: \<open>set_position\<close> raises, or \<open>go\<close> raises, or
  \<open>go\<close> returns its dictionary after \<open>elapsed\<close> measured milliseconds.
  Of the dictionary \<open>play\<close> reads \<open>bestmove\<close> and, of each entry of \<open>info\<close>, the key
  \<open>nodes\<close> (absent: \<open>None\<close>).
\<close>

record go_result =
  bestmove :: "string option"
  info :: "int option list"

datatype ply_io =
    SetPositionRaises py_exn
  | GoRaises py_exn
  | GoReturns int go_result

record dialogue =
  handshake :: "color \<Rightarrow> bool"
  new_game_raises :: "color \<Rightarrow> py_exn option"
  search :: "nat \<Rightarrow> ply_io"

text \<open>The opening loop: stop at the first move that does not parse or is not legal.\<close>

fun play_opening :: "('p, 'm) rules \<Rightarrow> 'p \<Rightarrow> string list \<Rightarrow> 'p" where
  "play_opening R b [] = b"
| "play_opening R b (move_uci # rest) =
     (case from_uci R move_uci of
        None \<Rightarrow> b
      | Some mv \<Rightarrow> if legal R b mv then play_opening R (push R b mv) rest else b)"

text \<open>
  One iteration of the \<open>while\<close> body up to the statistics. \<open>Failure w r\<close>: the body set
  \<open>result.winner = w\<close>, \<open>result.reason = r\<close> and left the loop before any move was made.
  \<open>Moved s\<close>: the move was pushed and the clock and node counters updated. \<open>Inl\<close>: an
  exception. The callback is not modelled: its exceptions are caught and it changes
  nothing of the match.
\<close>

datatype 'p ply_outcome = Failure string string | Moved "'p match_state"

definition other_side :: "color \<Rightarrow> string" where
  "other_side c = (if c = WHITE then ''black'' else ''white'')"

definition update_time :: "('p, 'm) rules \<Rightarrow> match_config \<Rightarrow> int \<Rightarrow> 'p match_state \<Rightarrow> 'p match_state" where
  "update_time R m elapsed s =
     (if turn R (board s) = BLACK
      then s\<lparr>time_white := max 0 (time_white s - elapsed + increment m)\<rparr>
      else s\<lparr>time_black := max 0 (time_black s - elapsed + increment m)\<rparr>)"

definition track_nodes :: "('p, 'm) rules \<Rightarrow> go_result \<Rightarrow> 'p match_state \<Rightarrow> 'p match_state" where
  "track_nodes R move_result s =
     (if info move_result = [] then s
      else (let nodes = (case last (info move_result) of None \<Rightarrow> 0 | Some n \<Rightarrow> n)
            in if turn R (board s) = BLACK then s\<lparr>nodes_white := nodes_white s + nodes\<rparr>
               else s\<lparr>nodes_black := nodes_black s + nodes\<rparr>))"

definition ply :: "('p, 'm) rules \<Rightarrow> dialogue \<Rightarrow> match_config \<Rightarrow> 'p match_state \<Rightarrow> py_exn + 'p ply_outcome" where
  "ply R X m s =
     (case search X (nat (move_count s)) of
        SetPositionRaises exn \<Rightarrow> Inl exn
      | GoRaises exn \<Rightarrow> Inl exn
      | GoReturns elapsed move_result \<Rightarrow>
          (case bestmove move_result of
             None \<Rightarrow> Inr (Failure (other_side (turn R (board s))) ''Engine failure'')
           | Some tok \<Rightarrow>
               if tok = [] then Inr (Failure (other_side (turn R (board s))) ''Engine failure'')
               else
                 (case from_uci R tok of
                    None \<Rightarrow> Inr (Failure (other_side (turn R (board s))) ''Illegal move'')
                  | Some mv \<Rightarrow>
                      if \<not> legal R (board s) mv
                      then Inr (Failure (other_side (turn R (board s))) ''Illegal move'')
                      else Inr (Moved (track_nodes R move_result (update_time R m elapsed
                             (s\<lparr>board := push R (board s) mv, move_count := move_count s + 1\<rparr>)))))))"

lemma ply_move_count:
  "ply R X m s = Inr (Moved s') \<Longrightarrow> move_count s' = move_count s + 1"
  by (auto simp: ply_def update_time_def track_nodes_def Let_def
      split: ply_io.splits option.splits if_splits)

text \<open>
  The \<open>while\<close> loop with the time-forfeit checks at its end. It returns the state at
  the exit and the winner and reason when a \<open>break\<close> set them. It terminates: every
  iteration that comes back adds one to \<open>move_count\<close>, which stays below \<open>max_moves\<close>.
\<close>

function play_loop ::
  "('p, 'm) rules \<Rightarrow> dialogue \<Rightarrow> match_config \<Rightarrow> 'p match_state
     \<Rightarrow> py_exn + ('p match_state \<times> (string \<times> string) option)" where
  "play_loop R X m s =
     (if is_game_over R (board s) \<or> \<not> move_count s < max_moves m then Inr (s, None)
      else
        (case ply R X m s of
           Inl exn \<Rightarrow> Inl exn
         | Inr (Failure w r) \<Rightarrow> Inr (s, Some (w, r))
         | Inr (Moved s') \<Rightarrow>
             if time_white s' \<le> 0 then Inr (s', Some (''black'', ''Time forfeit''))
             else if time_black s' \<le> 0 then Inr (s', Some (''white'', ''Time forfeit''))
             else play_loop R X m s'))"
  by pat_completeness auto
termination
  by (relation "measure (\<lambda>(R, X, m, s). nat (max_moves m - move_count s))")
     (auto dest: ply_move_count)

text \<open>
  The states after each move of the loop started in \<open>s\<close>, in order: the states at which
  the time-forfeit checks at the end of the body are made.
\<close>

function plies ::
  "('p, 'm) rules \<Rightarrow> dialogue \<Rightarrow> match_config \<Rightarrow> 'p match_state \<Rightarrow> 'p match_state list" where
  "plies R X m s =
     (if is_game_over R (board s) \<or> \<not> move_count s < max_moves m then []
      else
        (case ply R X m s of
           Inl exn \<Rightarrow> []
         | Inr (Failure w r) \<Rightarrow> []
         | Inr (Moved s') \<Rightarrow>
             if time_white s' \<le> 0 then [s']
             else if time_black s' \<le> 0 then [s']
             else s' # plies R X m s'))"
  by pat_completeness auto
termination
  by (relation "measure (\<lambda>(R, X, m, s). nat (max_moves m - move_count s))")
     (auto dest: ply_move_count)

text \<open>The result when no \<open>break\<close> set one: the chain after the loop.\<close>

definition determine_result :: "('p, 'm) rules \<Rightarrow> match_config \<Rightarrow> 'p match_state \<Rightarrow> string \<times> string" where
  "determine_result R m s =
     (if is_checkmate R (board s)
        then (if turn R (board s) = BLACK then ''white'' else ''black'', ''Checkmate'')
      else if is_stalemate R (board s) then (''draw'', ''Stalemate'')
      else if is_insufficient_material R (board s) then (''draw'', ''Insufficient material'')
      else if is_fifty_moves R (board s) then (''draw'', ''Fifty-move rule'')
      else if is_repetition R (board s) then (''draw'', ''Threefold repetition'')
      else if move_count s \<ge> max_moves m
        then (''draw'', ''Maximum moves ('' @ str_int (max_moves m) @ '') reached'')
      else (''draw'', ''Game over''))"

text \<open>
  \<open>play\<close>. \<open>play_try\<close> is the \<open>try\<close> block; \<open>except Exception\<close> turns an exception into
  the result with winner \<open>error\<close> and the message as reason, every other field as
  \<open>MatchResult()\<close> made it (they are assigned last in the block). The \<open>finally\<close> block
  calls \<open>quit\<close> on the clients that were constructed; \<open>quit\<close> returns on every path and
  does not touch the result, so the block is left out.
\<close>

definition game_result :: "('p, 'm) rules \<Rightarrow> match_config \<Rightarrow> 'p match_state \<Rightarrow> string \<times> string \<Rightarrow> match_result" where
  "game_result R m s wr =
     (let mvs = map (uci R) (move_stack R (board s))
      in \<lparr>winner = Some (fst wr), reason = snd wr, moves = mvs,
          pgn = game_text R (white_engine_path m) (black_engine_path m) (time_control m)
                  (increment m) (Some (fst wr)) (snd wr) mvs,
          result_time_white = time_white s, result_time_black = time_black s,
          result_nodes_white = nodes_white s, result_nodes_black = nodes_black s\<rparr>)"

definition initial_state :: "('p, 'm) rules \<Rightarrow> match_config \<Rightarrow> 'p match_state" where
  "initial_state R m =
     \<lparr>board = play_opening R (new_board R) (opening_moves m), move_count = 0,
      time_white = time_control m, time_black = time_control m,
      nodes_white = 0, nodes_black = 0\<rparr>"

text \<open>The statements of the \<open>try\<close> block before the opening loop: \<open>None\<close> when they all
  pass, otherwise the exception raised.\<close>

definition start_engines :: "world \<Rightarrow> dialogue \<Rightarrow> match_config \<Rightarrow> py_exn option" where
  "start_engines W X m =
     (case UCIEngine W (white_engine_path m) 30 of
        Inl exn \<Rightarrow> Some exn
      | Inr white_engine \<Rightarrow>
     (case UCIEngine W (black_engine_path m) 30 of
        Inl exn \<Rightarrow> Some exn
      | Inr black_engine \<Rightarrow>
          if snd (start W white_engine) \<noteq> Inr True \<or> snd (start W black_engine) \<noteq> Inr True
            then Some (RuntimeError ''Failed to start engines'')
          else if \<not> handshake X WHITE \<or> \<not> handshake X BLACK
            then Some (RuntimeError ''Failed to initialize engines'')
          else
            (case new_game_raises X WHITE of
               Some exn \<Rightarrow> Some exn
             | None \<Rightarrow> new_game_raises X BLACK)))"

definition play_try :: "world \<Rightarrow> ('p, 'm) rules \<Rightarrow> dialogue \<Rightarrow> match_config \<Rightarrow> py_exn + match_result" where
  "play_try W R X m =
     (case start_engines W X m of
        Some exn \<Rightarrow> Inl exn
      | None \<Rightarrow>
          (case play_loop R X m (initial_state R m) of
             Inl exn \<Rightarrow> Inl exn
           | Inr (s, None) \<Rightarrow> Inr (game_result R m s (determine_result R m s))
           | Inr (s, Some wr) \<Rightarrow> Inr (game_result R m s wr)))"

definition play :: "world \<Rightarrow> ('p, 'm) rules \<Rightarrow> dialogue \<Rightarrow> match_config \<Rightarrow> match_result" where
  "play W R X m =
     (case play_try W R X m of
        Inr result \<Rightarrow> result
      | Inl exn \<Rightarrow> MatchResult\<lparr>winner := Some ''error'', reason := str exn\<rparr>)"

section \<open>Tournament statistics (tournament.py, class TournamentStats)\<close>

text \<open>
  The accumulator kept per engine. The counters are Python ints. The field \<open>points\<close> is a
  Python float that only ever receives the additions \<open>+= 1.0\<close> and \<open>+= 0.5\<close>; every value it
  takes is a multiple of one half, which binary floating point represents and adds exactly
  (below \<open>2^52\<close>), so it is modelled by a rational number.
\<close>

record tournament_stats =
  engine_name :: string
  games_played :: int
  wins :: int
  losses :: int
  draws :: int
  points :: rat
  wins_as_white :: int
  wins_as_black :: int
  total_nodes :: int

definition TournamentStats :: "string \<Rightarrow> tournament_stats" where
  "TournamentStats nm =
     \<lparr>engine_name = nm, games_played = 0, wins = 0, losses = 0, draws = 0, points = 0,
      wins_as_white = 0, wins_as_black = 0, total_nodes = 0\<rparr>"

text \<open>
  \<open>add_result(result, color, nodes)\<close>: the game and node counters always move; the
  \<open>if/elif\<close> chain on the result string has no \<open>else\<close>, so any other string changes
  nothing more.
\<close>

definition add_result :: "tournament_stats \<Rightarrow> string \<Rightarrow> string \<Rightarrow> int \<Rightarrow> tournament_stats" where
  "add_result s result color nodes =
     (let s1 = s\<lparr>games_played := games_played s + 1, total_nodes := total_nodes s + nodes\<rparr>
      in if result = ''win'' then
           (let s2 = s1\<lparr>wins := wins s1 + 1, points := points s1 + 1\<rparr>
            in if color = ''white'' then s2\<lparr>wins_as_white := wins_as_white s2 + 1\<rparr>
               else s2\<lparr>wins_as_black := wins_as_black s2 + 1\<rparr>)
         else if result = ''loss'' then s1\<lparr>losses := losses s1 + 1\<rparr>
         else if result = ''draw'' then s1\<lparr>draws := draws s1 + 1, points := points s1 + 1 / 2\<rparr>
         else s1)"

text \<open>A sequence of \<open>add_result\<close> calls on one accumulator, in order.\<close>

fun add_results :: "tournament_stats \<Rightarrow> (string \<times> string \<times> int) list \<Rightarrow> tournament_stats" where
  "add_results s [] = s"
| "add_results s ((result, color, nodes) # calls) =
     add_results (add_result s result color nodes) calls"

section \<open>The tournament scheduler (tournament.py, class Tournament)\<close>

text \<open>
  Of an \<open>EngineConfig\<close> the scheduler reads the name and the path. The registry
  (\<open>EngineManager.engines\<close>) is a dictionary from names to configurations and
  \<open>get_engine\<close> is its \<open>get\<close>: \<open>None\<close> for an unknown name.
\<close>

record engine_config =
  cfg_name :: string
  cfg_path :: string

record game_info =
  game_number :: int
  white :: string
  black :: string
  result :: "string option"
  info_reason :: string
  info_moves :: nat
  info_pgn :: string

text \<open>The fields of a \<open>Tournament\<close>; \<open>name\<close>, \<open>time_control\<close> and \<open>increment\<close> are prefixed.\<close>

record tournament =
  tournament_name :: string
  engine_manager :: "string \<rightharpoonup> engine_config"
  tournament_time_control :: int
  tournament_increment :: int
  rounds :: int
  opening_book :: "string list list"
  stats :: "string \<rightharpoonup> tournament_stats"
  games :: "game_info list"
  current_game :: int
  total_games :: int

text \<open>
  What a run does outside the object: \<open>choices\<close> counts the calls of \<open>random.choice\<close>
  made so far, and \<open>played\<close> lists the arguments of the \<open>Match\<close> objects constructed and
  played, in order.
\<close>

record effects =
  choices :: nat
  played :: "match_config list"

text \<open>
  The surroundings of a run: the machine, the chess library, the behaviour of the engines
  in the game started when \<open>current_game\<close> was \<open>k\<close>, and the random source, whose
  \<open>k\<close>-th value decides the \<open>k\<close>-th call of \<open>random.choice\<close>.
\<close>

record ('p, 'm) surroundings =
  machine :: world
  chess :: "('p, 'm) rules"
  engines_in_game :: "nat \<Rightarrow> dialogue"
  random_source :: "nat \<Rightarrow> nat"

text \<open>\<open>random.choice\<close> on a non-empty list: an index below the length.\<close>

definition random_choice :: "nat \<Rightarrow> 'a list \<Rightarrow> 'a" where
  "random_choice r xs = xs ! (r mod length xs)"

text \<open>\<open>opening = random.choice(self.opening_book) if self.opening_book else []\<close>\<close>

definition select_opening ::
  "('p, 'm) surroundings \<Rightarrow> tournament \<Rightarrow> effects \<Rightarrow> string list \<times> effects" where
  "select_opening S T E =
     (if opening_book T \<noteq> []
      then (random_choice (random_source S (choices E)) (opening_book T), E\<lparr>choices := choices E + 1\<rparr>)
      else ([], E))"

text \<open>\<open>list(combinations(engine_names, 2))\<close>: pairs of positions, in order.\<close>

fun combinations2 :: "'a list \<Rightarrow> ('a \<times> 'a) list" where
  "combinations2 [] = []"
| "combinations2 (x # xs) = map (Pair x) xs @ combinations2 xs"

text \<open>
  \<open>_play_game\<close>. The match is played first. The two accumulators are then looked up by
  the configurations' names; a missing key raises \<open>KeyError\<close> before any update, and
  \<open>except Exception\<close> only counts the game. The second lookup reads the dictionary after
  the first accumulator was updated: with one name on both sides the two variables are
  one object. Saving the game text and calling the callback cannot leave the method with
  an exception and do not change the tournament, so they are left out.
\<close>

definition update_stats ::
  "(string \<rightharpoonup> tournament_stats) \<Rightarrow> string \<Rightarrow> string \<Rightarrow> string \<Rightarrow> int \<Rightarrow> (string \<rightharpoonup> tournament_stats)" where
  "update_stats st nm res color nodes =
     (case st nm of
        None \<Rightarrow> st
      | Some acc \<Rightarrow> st(nm \<mapsto> add_result acc res color nodes))"

definition record_result ::
  "(string \<rightharpoonup> tournament_stats) \<Rightarrow> string \<Rightarrow> string \<Rightarrow> match_result \<Rightarrow> (string \<rightharpoonup> tournament_stats)" where
  "record_result st white_name black_name res =
     (if winner res = Some ''white'' then
        update_stats (update_stats st white_name ''win'' ''white'' (result_nodes_white res))
          black_name ''loss'' ''black'' (result_nodes_black res)
      else if winner res = Some ''black'' then
        update_stats (update_stats st white_name ''loss'' ''white'' (result_nodes_white res))
          black_name ''win'' ''black'' (result_nodes_black res)
      else
        update_stats (update_stats st white_name ''draw'' ''white'' (result_nodes_white res))
          black_name ''draw'' ''black'' (result_nodes_black res))"

text \<open>The arguments \<open>_play_game\<close> gives to \<open>Match\<close> (\<open>max_moves\<close> keeps its default), and
  the result of \<open>match.play()\<close>.\<close>

definition match_of :: "tournament \<Rightarrow> engine_config \<Rightarrow> engine_config \<Rightarrow> string list \<Rightarrow> match_config" where
  "match_of T white_config black_config opening =
     \<lparr>white_engine_path = cfg_path white_config,
      black_engine_path = cfg_path black_config,
      time_control = tournament_time_control T,
      increment = tournament_increment T,
      opening_moves = opening, max_moves = 200\<rparr>"

definition match_played ::
  "('p, 'm) surroundings \<Rightarrow> tournament \<Rightarrow> engine_config \<Rightarrow> engine_config \<Rightarrow> string list \<Rightarrow> match_result" where
  "match_played S T white_config black_config opening =
     play (machine S) (chess S) (engines_in_game S (nat (current_game T)))
       (match_of T white_config black_config opening)"

definition play_game ::
  "('p, 'm) surroundings \<Rightarrow> tournament \<times> effects \<Rightarrow> engine_config \<Rightarrow> engine_config
     \<Rightarrow> string list \<Rightarrow> tournament \<times> effects" where
  "play_game S TE white_config black_config opening =
     (let T = fst TE; E = snd TE;
          res = match_played S T white_config black_config opening;
          E' = E\<lparr>played := played E @ [match_of T white_config black_config opening]\<rparr>
      in if stats T (cfg_name white_config) = None \<or> stats T (cfg_name black_config) = None
         then (T\<lparr>current_game := current_game T + 1\<rparr>, E')
         else
           (T\<lparr>stats := record_result (stats T) (cfg_name white_config) (cfg_name black_config) res,
              games := games T @
                [\<lparr>game_number = current_game T + 1, white = cfg_name white_config,
                  black = cfg_name black_config, result = winner res,
                  info_reason = reason res, info_moves = length (moves res),
                  info_pgn = pgn res\<rparr>],
              current_game := current_game T + 1\<rparr>, E'))"

text \<open>
  The body of the loop over the pairings in \<open>run_round_robin\<close>: both configurations are
  fetched; when one is missing the pairing is skipped (\<open>continue\<close>); otherwise one
  opening is selected and two games are played with it, the second with the colours
  reversed.
\<close>

definition play_pairing ::
  "('p, 'm) surroundings \<Rightarrow> tournament \<times> effects \<Rightarrow> string \<times> string \<Rightarrow> tournament \<times> effects" where
  "play_pairing S TE pairing =
     (case (engine_manager (fst TE) (fst pairing), engine_manager (fst TE) (snd pairing)) of
        (Some white_config, Some black_config) \<Rightarrow>
          (let (opening, E1) = select_opening S (fst TE) (snd TE);
               TE1 = play_game S (fst TE, E1) white_config black_config opening
           in play_game S TE1 black_config white_config opening)
      | _ \<Rightarrow> TE)"

text \<open>One round, and \<open>for round_num in range(self.rounds)\<close>.\<close>

definition play_round ::
  "('p, 'm) surroundings \<Rightarrow> (string \<times> string) list \<Rightarrow> tournament \<times> effects \<Rightarrow> tournament \<times> effects" where
  "play_round S pairings TE = foldl (play_pairing S) TE pairings"

fun play_rounds ::
  "('p, 'm) surroundings \<Rightarrow> nat \<Rightarrow> (string \<times> string) list \<Rightarrow> tournament \<times> effects \<Rightarrow> tournament \<times> effects" where
  "play_rounds S 0 pairings TE = TE"
| "play_rounds S (Suc k) pairings TE = play_rounds S k pairings (play_round S pairings TE)"

definition init_stats :: "(string \<rightharpoonup> tournament_stats) \<Rightarrow> string list \<Rightarrow> (string \<rightharpoonup> tournament_stats)" where
  "init_stats st names = foldl (\<lambda>st nm. st(nm \<mapsto> TournamentStats nm)) st names"

text \<open>\<open>run_round_robin\<close>; the value is the tournament as \<open>get_results\<close> reads it
  (\<open>games_played\<close> is \<open>current_game\<close>, \<open>games_total\<close> is \<open>total_games\<close>).\<close>

definition run_round_robin ::
  "('p, 'm) surroundings \<Rightarrow> tournament \<times> effects \<Rightarrow> string list \<Rightarrow> tournament \<times> effects" where
  "run_round_robin S TE engine_names =
     (let T = fst TE;
          T1 = T\<lparr>stats := init_stats (stats T) engine_names\<rparr>;
          pairings = combinations2 engine_names;
          T2 = T1\<lparr>total_games := int (length pairings) * rounds T1 * 2\<rparr>
      in play_rounds S (nat (rounds T2)) pairings (T2, snd TE))"

text \<open>\<open>run_gauntlet\<close>: per round and opponent, the same body with the test engine first.\<close>

definition run_gauntlet ::
  "('p, 'm) surroundings \<Rightarrow> tournament \<times> effects \<Rightarrow> string \<Rightarrow> string list \<Rightarrow> tournament \<times> effects" where
  "run_gauntlet S TE test_engine opponent_engines =
     (let T = fst TE;
          T1 = T\<lparr>stats := init_stats (stats T) (test_engine # opponent_engines)\<rparr>;
          T2 = T1\<lparr>total_games := int (length opponent_engines) * rounds T1 * 2\<rparr>
      in play_rounds S (nat (rounds T2)) (map (Pair test_engine) opponent_engines) (T2, snd TE))"

text \<open>
  The schedule written out. \<open>chosen S T k\<close> is the opening prefix a
  selection yields when \<open>k\<close> calls of \<open>random.choice\<close> were made before it (none without
  a pool). \<open>pairing_games S T c ps\<close> lists, for the pairings \<open>ps\<close> in order, two games
  each: the pairing as it stands and with the colours swapped, both on the opening of the
  pairing's one selection, the first selection being number \<open>c\<close>.
\<close>

definition chosen :: "('p, 'm) surroundings \<Rightarrow> tournament \<Rightarrow> nat \<Rightarrow> string list" where
  "chosen S T k = (if opening_book T \<noteq> [] then random_choice (random_source S k) (opening_book T) else [])"

fun pairing_games ::
  "('p, 'm) surroundings \<Rightarrow> tournament \<Rightarrow> nat \<Rightarrow> (string \<times> string) list \<Rightarrow> match_config list" where
  "pairing_games S T c [] = []"
| "pairing_games S T c (pairing # ps) =
     [match_of T (the (engine_manager T (fst pairing))) (the (engine_manager T (snd pairing))) (chosen S T c),
      match_of T (the (engine_manager T (snd pairing))) (the (engine_manager T (fst pairing))) (chosen S T c)]
     @ pairing_games S T (Suc c) ps"

text \<open>Every name of the pairings is in the registry.\<close>

definition resolves :: "tournament \<Rightarrow> (string \<times> string) list \<Rightarrow> bool" where
  "resolves T ps = list_all (\<lambda>pr. engine_manager T (fst pr) \<noteq> None \<and> engine_manager T (snd pr) \<noteq> None) ps"

text \<open>\<open>Tournament.__init__\<close>, and the state of the surroundings before a run.\<close>

definition Tournament ::
  "string \<Rightarrow> (string \<rightharpoonup> engine_config) \<Rightarrow> int \<Rightarrow> int \<Rightarrow> int \<Rightarrow> string list list \<Rightarrow> tournament" where
  "Tournament nm manager tc inc rnds book =
     \<lparr>tournament_name = nm, engine_manager = manager, tournament_time_control = tc,
      tournament_increment = inc, rounds = rnds, opening_book = book,
      stats = Map.empty, games = [], current_game = 0, total_games = 0\<rparr>"

definition no_effects :: effects where
  "no_effects = \<lparr>choices = 0, played = []\<rparr>"

section \<open>Concrete inputs\<close>

text \<open>
  A small stand-in for the chess library, on which the model runs on concrete games: a
  board is the list of the moves pushed, White is to move after an even number of them,
  a move token parses when it has four characters and two different squares, and four
  moves are legal. No game on it is ever over.
\<close>

definition demo_rules :: "(string list, string) rules" where
  "demo_rules =
     \<lparr>new_board = [],
      turn = (\<lambda>b. if even (length b) then WHITE else BLACK),
      from_uci = (\<lambda>tok. if length tok = 4 \<and> take 2 tok \<noteq> drop 2 tok then Some tok else None),
      uci = (\<lambda>mv. mv),
      legal = (\<lambda>b mv. mv \<in> set [''e2e4'', ''e7e5'', ''g1f3'', ''b8c6'']),
      push = (\<lambda>b mv. b @ [mv]),
      move_stack = (\<lambda>b. b),
      is_game_over = (\<lambda>b. False),
      is_checkmate = (\<lambda>b. False),
      is_stalemate = (\<lambda>b. False),
      is_insufficient_material = (\<lambda>b. False),
      is_fifty_moves = (\<lambda>b. False),
      is_repetition = (\<lambda>b. False),
      game_text = (\<lambda>w b tc inc win rsn mvs. concat mvs)\<rparr>"

text \<open>A machine on which every path exists and every executable starts, and one on which
  no path exists.\<close>

definition demo_proc :: proc where
  "demo_proc = \<lparr>alive = True, accepts_input = True, obeys_quit = True\<rparr>"

definition demo_world :: world where
  "demo_world = \<lparr>path_exists = (\<lambda>path. True), popen = (\<lambda>path. Inr demo_proc)\<rparr>"

definition empty_world :: world where
  "empty_world =
     \<lparr>path_exists = (\<lambda>path. False),
      popen = (\<lambda>path. Inl (FileNotFoundError ''No such file or directory''))\<rparr>"

text \<open>Two engines that complete the handshake; every search takes \<open>elapsed\<close> milliseconds
  and answers \<open>tok\<close>.\<close>

definition demo_dialogue :: "int \<Rightarrow> string \<Rightarrow> dialogue" where
  "demo_dialogue elapsed tok =
     \<lparr>handshake = (\<lambda>c. True), new_game_raises = (\<lambda>c. None),
      search = (\<lambda>k. GoReturns elapsed \<lparr>bestmove = Some tok, info = []\<rparr>)\<rparr>"

definition demo_match :: "int \<Rightarrow> match_config" where
  "demo_match tc =
     \<lparr>white_engine_path = ''Engines/a.exe'', black_engine_path = ''Engines/b.exe'',
      time_control = tc, increment = 0, opening_moves = [], max_moves = 200\<rparr>"

text \<open>A registry of three engines, and surroundings in which no executable exists (every
  game ends at once with winner \<open>error\<close>) and the random source counts up.\<close>

definition demo_manager :: "string \<rightharpoonup> engine_config" where
  "demo_manager =
     [''A'' \<mapsto> \<lparr>cfg_name = ''A'', cfg_path = ''Engines/A.exe''\<rparr>,
      ''B'' \<mapsto> \<lparr>cfg_name = ''B'', cfg_path = ''Engines/B.exe''\<rparr>,
      ''C'' \<mapsto> \<lparr>cfg_name = ''C'', cfg_path = ''Engines/C.exe''\<rparr>]"

definition demo_surroundings :: "(string list, string) surroundings" where
  "demo_surroundings =
     \<lparr>machine = empty_world, chess = demo_rules,
      engines_in_game = (\<lambda>k. demo_dialogue 20 ''e2e4''),
      random_source = (\<lambda>k. k)\<rparr>"

text \<open>A pool of two opening prefixes.\<close>

definition demo_book :: "string list list" where
  "demo_book = [[''e2e4''], [''d2d4'']]"

text \<open>A tournament in which the accumulators of \<open>A\<close> and \<open>B\<close> exist, and their
  configurations.\<close>

definition demo_running :: tournament where
  "demo_running =
     (Tournament ''demo'' demo_manager 60000 0 1 [])
       \<lparr>stats := init_stats Map.empty [''A'', ''B'']\<rparr>"

definition cfg_A :: engine_config where
  "cfg_A = \<lparr>cfg_name = ''A'', cfg_path = ''Engines/A.exe''\<rparr>"

definition cfg_B :: engine_config where
  "cfg_B = \<lparr>cfg_name = ''B'', cfg_path = ''Engines/B.exe''\<rparr>"


definition fresh_engine :: "string \<Rightarrow> engine" where
  "fresh_engine path =
     \<lparr>engine_path = path, timeout = 30, process = None, running = False,
      name = ''Unknown'', author = ''Unknown'', options = [],
      supports_mate_search = False\<rparr>"

definition stubborn_engine :: engine where
  "stubborn_engine =
     (fresh_engine ''Engines/a.exe'')
       \<lparr>process := Some \<lparr>alive = True, accepts_input = True, obeys_quit = False\<rparr>, running := True\<rparr>"

definition crashed_engine :: engine where
  "crashed_engine =
     (fresh_engine ''Engines/a.exe'')
       \<lparr>process := Some \<lparr>alive = False, accepts_input = True, obeys_quit = True\<rparr>, running := True\<rparr>"

text \<open>An engine that prints a line every 50 milliseconds and never \<open>uciok\<close>, and a
  started client.\<close>

definition chatty :: events where
  "chatty = (\<lambda>k. (50, Some ''info string hello''))"

definition running_engine :: engine where
  "running_engine = (fresh_engine ''Engines/a.exe'')\<lparr>process := Some demo_proc, running := True\<rparr>"



text \<open>Two engines of which White opens with a legal move and Black answers with a move
  the rules reject.\<close>

definition blunder_dialogue :: dialogue where
  "blunder_dialogue =
     \<lparr>handshake = (\<lambda>c. True), new_game_raises = (\<lambda>c. None),
      search = (\<lambda>k. if k = 0 then GoReturns 20 \<lparr>bestmove = Some ''e2e4'', info = []\<rparr>
                     else GoReturns 20 \<lparr>bestmove = Some ''e2e5'', info = []\<rparr>)\<rparr>"

text \<open>A match with a one-move opening prefix.\<close>

definition opening_match :: match_config where
  "opening_match = (demo_match 60000)\<lparr>opening_moves := [''e2e4'']\<rparr>"

section \<open>Properties of the accumulator\<close>

lemma add_result_points:
  "points (add_result s r c n) - (of_int (wins (add_result s r c n)) + of_int (draws (add_result s r c n)) / 2)
     = points s - (of_int (wins s) + of_int (draws s) / 2)"
  by (simp add: add_result_def Let_def add_divide_distrib)

lemma add_results_points:
  "points (add_results s calls) - (of_int (wins (add_results s calls)) + of_int (draws (add_results s calls)) / 2)
     = points s - (of_int (wins s) + of_int (draws s) / 2)"
proof (induction calls arbitrary: s)
  case Nil
  show ?case by simp
next
  case (Cons call calls)
  obtain r c n where call: "call = (r, c, n)" by (cases call)
  show ?case
    unfolding call add_results.simps Cons.IH by (rule add_result_points)
qed

text \<open>
  C2. For every accumulator created by \<open>TournamentStats\<close>, after any sequence of
  \<open>add_result\<close> calls (whatever their result strings, colours and node counts) the points
  equal the wins plus half the draws.
\<close>

theorem points_wins_draws:
  "points (add_results (TournamentStats nm) calls)
     = of_int (wins (add_results (TournamentStats nm) calls))
       + of_int (draws (add_results (TournamentStats nm) calls)) / 2"
proof -
  have "points (TournamentStats nm) - (of_int (wins (TournamentStats nm)) + of_int (draws (TournamentStats nm)) / 2) = 0"
    by (simp add: TournamentStats_def)
  with add_results_points [of "TournamentStats nm" calls] show ?thesis by simp
qed

section \<open>Properties of one game\<close>

declare play_loop.simps [simp del] plies.simps [simp del]

lemma ply_clocks:
  assumes "ply R X m s = Inr (Moved s')"
  shows "\<exists>elapsed mr. search X (nat (move_count s)) = GoReturns elapsed mr \<and>
     (if turn R (board s') = BLACK
      then time_white s' = max 0 (time_white s - elapsed + increment m) \<and> 0 \<le> time_white s'
           \<and> time_black s' = time_black s
      else time_black s' = max 0 (time_black s - elapsed + increment m) \<and> 0 \<le> time_black s'
           \<and> time_white s' = time_white s)"
  using assms
  by (auto simp: ply_def update_time_def track_nodes_def Let_def
      split: ply_io.splits option.splits if_splits)

lemma ply_nonneg:
  assumes "ply R X m s = Inr (Moved s')" "0 \<le> time_white s" "0 \<le> time_black s"
  shows "0 \<le> time_white s' \<and> 0 \<le> time_black s'"
  using ply_clocks [OF assms(1)] assms(2,3) by (auto split: if_splits)

lemma plies_nonneg:
  "0 \<le> time_white s \<Longrightarrow> 0 \<le> time_black s \<Longrightarrow> s' \<in> set (plies R X m s)
     \<Longrightarrow> 0 \<le> time_white s' \<and> 0 \<le> time_black s'"
proof (induction R X m s rule: plies.induct)
  case (1 R X m s)
  show ?case
  proof (cases "ply R X m s")
    case (Inl exn)
    with "1.prems" show ?thesis by (simp add: plies.simps [of R X m s] split: if_splits)
  next
    case (Inr out)
    show ?thesis
    proof (cases out)
      case (Failure w r)
      with Inr "1.prems" show ?thesis by (simp add: plies.simps [of R X m s] split: if_splits)
    next
      case (Moved t)
      have t: "0 \<le> time_white t \<and> 0 \<le> time_black t"
        using ply_nonneg [of R X m s t] Inr Moved "1.prems" by simp
      from "1.prems"(3) have "s' = t \<or> (0 < time_white t \<and> 0 < time_black t \<and> \<not> is_game_over R (board s) \<and> move_count s < max_moves m \<and> s' \<in> set (plies R X m t))"
        using Inr Moved by (auto simp add: plies.simps [of R X m s] split: if_splits)
      then show ?thesis
      proof
        assume "s' = t" with t show ?thesis by simp
      next
        assume a: "0 < time_white t \<and> 0 < time_black t \<and> \<not> is_game_over R (board s) \<and> move_count s < max_moves m \<and> s' \<in> set (plies R X m t)"
        show ?thesis
          using "1.IH" a t Inr Moved by auto
      qed
    qed
  qed
qed

lemma plies_forfeit:
  "s' \<in> set (plies R X m s) \<Longrightarrow> time_white s' \<le> 0 \<or> time_black s' \<le> 0
     \<Longrightarrow> play_loop R X m s
           = Inr (s', Some (if time_white s' \<le> 0 then ''black'' else ''white'', ''Time forfeit''))"
proof (induction R X m s rule: plies.induct)
  case (1 R X m s)
  show ?case
  proof (cases "ply R X m s")
    case (Inl exn)
    with "1.prems" show ?thesis by (simp add: plies.simps [of R X m s] split: if_splits)
  next
    case (Inr out)
    show ?thesis
    proof (cases out)
      case (Failure w r)
      with Inr "1.prems" show ?thesis by (simp add: plies.simps [of R X m s] split: if_splits)
    next
      case (Moved t)
      from "1.prems"(1) have cond: "\<not> is_game_over R (board s)" "move_count s < max_moves m"
        by (auto simp add: plies.simps [of R X m s] split: if_splits)
      show ?thesis
      proof (cases "time_white t \<le> 0 \<or> time_black t \<le> 0")
        case True
        with "1.prems"(1) Inr Moved cond have "s' = t"
          by (auto simp add: plies.simps [of R X m s] split: if_splits)
        with True Inr Moved cond show ?thesis
          by (auto simp add: play_loop.simps [of R X m s])
      next
        case False
        with "1.prems"(1) Inr Moved cond have "s' = t \<or> s' \<in> set (plies R X m t)"
          by (auto simp add: plies.simps [of R X m s] split: if_splits)
        with False "1.prems"(2) have mem: "s' \<in> set (plies R X m t)" by auto
        have "play_loop R X m t
           = Inr (s', Some (if time_white s' \<le> 0 then ''black'' else ''white'', ''Time forfeit''))"
          using "1.IH" mem "1.prems"(2) False Inr Moved cond by auto
        with False Inr Moved cond show ?thesis
          by (auto simp add: play_loop.simps [of R X m s])
      qed
    qed
  qed
qed

lemma play_loop_nonneg:
  "play_loop R X m s = Inr (t, w) \<Longrightarrow> 0 \<le> time_white s \<Longrightarrow> 0 \<le> time_black s
     \<Longrightarrow> 0 \<le> time_white t \<and> 0 \<le> time_black t"
proof (induction R X m s rule: play_loop.induct)
  case (1 R X m s)
  show ?case
  proof (cases "is_game_over R (board s) \<or> \<not> move_count s < max_moves m")
    case True
    with "1.prems" show ?thesis by (simp add: play_loop.simps [of R X m s])
  next
    case cond: False
    show ?thesis
    proof (cases "ply R X m s")
      case (Inl exn)
      with "1.prems" cond show ?thesis by (simp add: play_loop.simps [of R X m s])
    next
      case (Inr out)
      show ?thesis
      proof (cases out)
        case (Failure w' r)
        with Inr "1.prems" cond show ?thesis by (auto simp add: play_loop.simps [of R X m s])
      next
        case (Moved u)
        have u: "0 \<le> time_white u \<and> 0 \<le> time_black u"
          using ply_nonneg [of R X m s u] Inr Moved "1.prems" by simp
        show ?thesis
        proof (cases "time_white u \<le> 0 \<or> time_black u \<le> 0")
          case True
          with "1.prems"(1) Inr Moved cond have "t = u"
            by (auto simp add: play_loop.simps [of R X m s] split: if_splits)
          with u show ?thesis by simp
        next
          case False
          with "1.prems"(1) Inr Moved cond have "play_loop R X m u = Inr (t, w)"
            by (auto simp add: play_loop.simps [of R X m s] split: if_splits)
          then show ?thesis using "1.IH" False Inr Moved cond u by auto
        qed
      qed
    qed
  qed
qed

lemma play_error_or_game:
  "(\<exists>exn. play W R X m = MatchResult\<lparr>winner := Some ''error'', reason := str exn\<rparr>)
   \<or> (\<exists>s w wr. start_engines W X m = None \<and> play_loop R X m (initial_state R m) = Inr (s, w)
        \<and> play W R X m = game_result R m s wr)"
proof (cases "play_try W R X m")
  case (Inl exn)
  then have "play W R X m = MatchResult\<lparr>winner := Some ''error'', reason := str exn\<rparr>"
    by (simp add: play_def)
  then show ?thesis by blast
next
  case (Inr result)
  then have se: "start_engines W X m = None"
    by (simp add: play_try_def split: option.splits)
  from Inr se obtain s w where loop: "play_loop R X m (initial_state R m) = Inr (s, w)"
    by (cases "play_loop R X m (initial_state R m)") (auto simp: play_try_def)
  have "\<exists>wr. play W R X m = game_result R m s wr"
  proof (cases w)
    case None
    with se loop have "play W R X m = game_result R m s (determine_result R m s)"
      by (simp add: play_def play_try_def)
    then show ?thesis by blast
  next
    case (Some x)
    with se loop have "play W R X m = game_result R m s x"
      by (simp add: play_def play_try_def)
    then show ?thesis by blast
  qed
  with se loop show ?thesis by blast
qed

lemma play_clocks_nonneg:
  assumes "0 \<le> time_control m"
  shows "0 \<le> result_time_white (play W R X m) \<and> 0 \<le> result_time_black (play W R X m)"
proof -
  from play_error_or_game [of W R X m] show ?thesis
  proof (elim disjE exE conjE)
    fix exn assume "play W R X m = MatchResult\<lparr>winner := Some ''error'', reason := str exn\<rparr>"
    then show ?thesis by (simp add: MatchResult_def)
  next
    fix s w wr
    assume loop: "play_loop R X m (initial_state R m) = Inr (s, w)"
      and res: "play W R X m = game_result R m s wr"
    have "0 \<le> time_white s \<and> 0 \<le> time_black s"
      using play_loop_nonneg [OF loop] assms by (simp add: initial_state_def)
    with res show ?thesis by (simp add: game_result_def Let_def)
  qed
qed

lemma play_after_loop:
  assumes "start_engines W X m = None"
    and "play_loop R X m (initial_state R m) = Inr (s, Some wr)"
  shows "play W R X m = game_result R m s wr"
  using assms by (simp add: play_def play_try_def)

lemma demo_start_engines: "start_engines demo_world (demo_dialogue e tok) (demo_match tc) = None"
  by (simp add: start_engines_def UCIEngine_def start_def demo_world_def demo_dialogue_def demo_match_def)

lemma demo_ply_e2e4:
  "ply demo_rules (demo_dialogue 1500 ''e2e4'') (demo_match 1000) (initial_state demo_rules (demo_match 1000))
     = Inr (Moved \<lparr>board = [''e2e4''], move_count = 1, time_white = 0, time_black = 1000,
                    nodes_white = 0, nodes_black = 0\<rparr>)"
  by (simp add: ply_def demo_rules_def demo_dialogue_def demo_match_def initial_state_def
      update_time_def track_nodes_def)

lemma demo_plies:
  "plies demo_rules (demo_dialogue 1500 ''e2e4'') (demo_match 1000) (initial_state demo_rules (demo_match 1000))
     = [\<lparr>board = [''e2e4''], move_count = 1, time_white = 0, time_black = 1000,
                    nodes_white = 0, nodes_black = 0\<rparr>]"
  apply (subst plies.simps)
  apply (simp add: demo_ply_e2e4)
  apply (simp add: demo_rules_def demo_match_def initial_state_def)
  done


text \<open>
  C1 (as amended). After each ply exactly one clock changes: it becomes the old value minus the
  measured elapsed time plus the increment, floored at zero, so it is at least zero; it
  is White's when \<open>board.turn\<close>, read after the push, is \<open>BLACK\<close> (White has just
  moved), Black's otherwise. The clock of the side that has not moved yet is the
  configured time control: when that is not negative, the clocks of both sides are at
  least zero after every ply of the game, and so are the clocks in the match result. A clock at (or below) zero after a ply ends the loop there
  with reason \<open>Time forfeit\<close>, the side with the empty clock losing, White's clock being
  checked first.
\<close>

theorem post_move_clocks:
  "(\<forall>s s'. ply R X m s = Inr (Moved s') \<longrightarrow>
       (\<exists>elapsed mr. search X (nat (move_count s)) = GoReturns elapsed mr \<and>
          (if turn R (board s') = BLACK
           then time_white s' = max 0 (time_white s - elapsed + increment m) \<and> 0 \<le> time_white s'
                \<and> time_black s' = time_black s
           else time_black s' = max 0 (time_black s - elapsed + increment m) \<and> 0 \<le> time_black s'
                \<and> time_white s' = time_white s)))
   \<and> (0 \<le> time_control m \<longrightarrow>
         (\<forall>s \<in> set (plies R X m (initial_state R m)). 0 \<le> time_white s \<and> 0 \<le> time_black s)
         \<and> 0 \<le> result_time_white (play W R X m) \<and> 0 \<le> result_time_black (play W R X m))
   \<and> (\<forall>s \<in> set (plies R X m (initial_state R m)).
         time_white s \<le> 0 \<or> time_black s \<le> 0 \<longrightarrow>
           play_loop R X m (initial_state R m)
             = Inr (s, Some (if time_white s \<le> 0 then ''black'' else ''white'', ''Time forfeit''))
           \<and> (start_engines W X m = None \<longrightarrow>
                 winner (play W R X m) = Some (if time_white s \<le> 0 then ''black'' else ''white'')
                 \<and> reason (play W R X m) = ''Time forfeit''))"
proof (intro conjI allI impI ballI)
  fix s s' assume "ply R X m s = Inr (Moved s')"
  then show "\<exists>elapsed mr. search X (nat (move_count s)) = GoReturns elapsed mr \<and>
          (if turn R (board s') = BLACK
           then time_white s' = max 0 (time_white s - elapsed + increment m) \<and> 0 \<le> time_white s'
                \<and> time_black s' = time_black s
           else time_black s' = max 0 (time_black s - elapsed + increment m) \<and> 0 \<le> time_black s'
                \<and> time_white s' = time_white s)"
    by (rule ply_clocks)
next
  fix s assume tc: "0 \<le> time_control m" and mem: "s \<in> set (plies R X m (initial_state R m))"
  have init: "0 \<le> time_white (initial_state R m)" "0 \<le> time_black (initial_state R m)"
    using tc by (simp_all add: initial_state_def)
  from plies_nonneg [OF init mem] show "0 \<le> time_white s" "0 \<le> time_black s" by simp_all
next
  assume tc: "0 \<le> time_control m"
  from play_clocks_nonneg [OF tc, of W R X] show "0 \<le> result_time_white (play W R X m)"
    and "0 \<le> result_time_black (play W R X m)" by simp_all
next
  fix s assume mem: "s \<in> set (plies R X m (initial_state R m))"
    and z: "time_white s \<le> 0 \<or> time_black s \<le> 0"
  show loop: "play_loop R X m (initial_state R m)
             = Inr (s, Some (if time_white s \<le> 0 then ''black'' else ''white'', ''Time forfeit''))"
    by (rule plies_forfeit [OF mem z])
  assume se: "start_engines W X m = None"
  have "play W R X m = game_result R m s (if time_white s \<le> 0 then ''black'' else ''white'', ''Time forfeit'')"
    by (rule play_after_loop [OF se loop])
  then show "winner (play W R X m) = Some (if time_white s \<le> 0 then ''black'' else ''white'')"
    and "reason (play W R X m) = ''Time forfeit''"
    by (simp_all add: game_result_def Let_def)
qed


theorem post_move_clocks_witness:
  "(0::int) \<le> time_control (demo_match 1000)
   \<and> plies demo_rules (demo_dialogue 1500 ''e2e4'') (demo_match 1000)
        (initial_state demo_rules (demo_match 1000))
      = [\<lparr>board = [''e2e4''], move_count = 1, time_white = 0, time_black = 1000,
          nodes_white = 0, nodes_black = 0\<rparr>]
   \<and> start_engines demo_world (demo_dialogue 1500 ''e2e4'') (demo_match 1000) = None
   \<and> 0 \<le> result_time_white (play demo_world demo_rules (demo_dialogue 1500 ''e2e4'') (demo_match 1000))
   \<and> winner (play demo_world demo_rules (demo_dialogue 1500 ''e2e4'') (demo_match 1000)) = Some ''black''
   \<and> reason (play demo_world demo_rules (demo_dialogue 1500 ''e2e4'') (demo_match 1000)) = ''Time forfeit''"
  using post_move_clocks [of demo_rules "demo_dialogue 1500 ''e2e4''" "demo_match 1000" demo_world]
  by (simp add: demo_plies demo_start_engines) (simp add: demo_match_def)

lemma late_ply:
  "ply demo_rules (demo_dialogue 20 ''e2e4'') (demo_match (- 1000))
       (initial_state demo_rules (demo_match (- 1000)))
     = Inr (Moved \<lparr>board = [''e2e4''], move_count = 1, time_white = 0, time_black = - 1000,
                    nodes_white = 0, nodes_black = 0\<rparr>)"
  by (simp add: ply_def demo_rules_def demo_dialogue_def demo_match_def initial_state_def
      update_time_def track_nodes_def)

lemma late_plies:
  "plies demo_rules (demo_dialogue 20 ''e2e4'') (demo_match (- 1000))
       (initial_state demo_rules (demo_match (- 1000)))
     = [\<lparr>board = [''e2e4''], move_count = 1, time_white = 0, time_black = - 1000,
          nodes_white = 0, nodes_black = 0\<rparr>]"
  apply (subst plies.simps)
  apply (simp add: late_ply)
  apply (simp add: demo_rules_def demo_match_def initial_state_def)
  done

theorem negative_time_control_counterexample:
  "time_control (demo_match (- 1000)) = - 1000
   \<and> plies demo_rules (demo_dialogue 20 ''e2e4'') (demo_match (- 1000))
        (initial_state demo_rules (demo_match (- 1000)))
      = [\<lparr>board = [''e2e4''], move_count = 1, time_white = 0, time_black = - 1000,
          nodes_white = 0, nodes_black = 0\<rparr>]
   \<and> result_time_black (play demo_world demo_rules (demo_dialogue 20 ''e2e4'') (demo_match (- 1000)))
      = - 1000
   \<and> reason (play demo_world demo_rules (demo_dialogue 20 ''e2e4'') (demo_match (- 1000)))
      = ''Time forfeit''"
proof -
  let ?s1 = "\<lparr>board = [''e2e4''], move_count = 1, time_white = 0, time_black = - 1000,
          nodes_white = 0, nodes_black = (0::int)\<rparr>"
  have mem: "?s1 \<in> set (plies demo_rules (demo_dialogue 20 ''e2e4'') (demo_match (- 1000))
        (initial_state demo_rules (demo_match (- 1000))))"
    by (simp add: late_plies)
  have "play_loop demo_rules (demo_dialogue 20 ''e2e4'') (demo_match (- 1000))
        (initial_state demo_rules (demo_match (- 1000)))
      = Inr (?s1, Some (if time_white ?s1 \<le> 0 then ''black'' else ''white'', ''Time forfeit''))"
    by (rule plies_forfeit [OF mem]) simp
  from play_after_loop [OF demo_start_engines this]
  have "play demo_world demo_rules (demo_dialogue 20 ''e2e4'') (demo_match (- 1000))
      = game_result demo_rules (demo_match (- 1000)) ?s1 (''black'', ''Time forfeit'')"
    by simp
  then show ?thesis
    by (simp add: late_plies game_result_def Let_def) (simp add: demo_match_def)
qed

lemma play_loop_continue:
  "s' \<in> set (plies R X m s) \<Longrightarrow> 0 < time_white s' \<Longrightarrow> 0 < time_black s'
     \<Longrightarrow> play_loop R X m s = play_loop R X m s'"
proof (induction R X m s rule: plies.induct)
  case (1 R X m s)
  show ?case
  proof (cases "ply R X m s")
    case (Inl exn)
    with "1.prems" show ?thesis by (simp add: plies.simps [of R X m s] split: if_splits)
  next
    case (Inr out)
    show ?thesis
    proof (cases out)
      case (Failure w r)
      with Inr "1.prems" show ?thesis by (simp add: plies.simps [of R X m s] split: if_splits)
    next
      case (Moved t)
      from "1.prems"(1) have cond: "\<not> is_game_over R (board s)" "move_count s < max_moves m"
        by (auto simp add: plies.simps [of R X m s] split: if_splits)
      show ?thesis
      proof (cases "time_white t \<le> 0 \<or> time_black t \<le> 0")
        case True
        with "1.prems"(1) Inr Moved cond have "s' = t"
          by (auto simp add: plies.simps [of R X m s] split: if_splits)
        with True "1.prems"(2,3) show ?thesis by auto
      next
        case False
        have step: "play_loop R X m s = play_loop R X m t"
          using False Inr Moved cond by (auto simp add: play_loop.simps [of R X m s])
        from "1.prems"(1) False Inr Moved cond have "s' = t \<or> s' \<in> set (plies R X m t)"
          by (auto simp add: plies.simps [of R X m s] split: if_splits)
        then show ?thesis
        proof
          assume "s' = t" with step show ?thesis by simp
        next
          assume mem: "s' \<in> set (plies R X m t)"
          have "play_loop R X m t = play_loop R X m s'"
            using "1.IH" mem "1.prems"(2,3) False Inr Moved cond by auto
          with step show ?thesis by simp
        qed
      qed
    qed
  qed
qed


text \<open>
  C7. When both engines are up and the loop body runs at a state of the game (the state
  after the opening prefix, or the state after any ply that left both clocks running),
  and the engine to move answers \<open>go\<close> with a token that does not parse as a move or
  that the rules reject in that position, the match ends at once: the winner is the
  opponent of the side to move, the reason is \<open>Illegal move\<close>, the rejected move is not
  played and the clocks stay as they were. The first \<open>go\<close> from the start position with
  the answer \<open>a1a1\<close> is the case of the initial state without an opening.
\<close>

theorem illegal_move_ends_game:
  assumes engines: "start_engines W X m = None"
    and reached: "s = initial_state R m
                  \<or> (s \<in> set (plies R X m (initial_state R m)) \<and> 0 < time_white s \<and> 0 < time_black s)"
    and entered: "\<not> is_game_over R (board s)" "move_count s < max_moves m"
    and go: "search X (nat (move_count s)) = GoReturns elapsed move_result"
      "bestmove move_result = Some tok" "tok \<noteq> []"
    and rejected: "from_uci R tok = None
                   \<or> (\<exists>mv. from_uci R tok = Some mv \<and> \<not> legal R (board s) mv)"
  shows "winner (play W R X m) = Some (other_side (turn R (board s)))
         \<and> reason (play W R X m) = ''Illegal move''
         \<and> moves (play W R X m) = map (uci R) (move_stack R (board s))
         \<and> result_time_white (play W R X m) = time_white s
         \<and> result_time_black (play W R X m) = time_black s"
proof -
  have "ply R X m s = Inr (Failure (other_side (turn R (board s))) ''Illegal move'')"
    using go rejected by (auto simp: ply_def)
  then have here: "play_loop R X m s
      = Inr (s, Some (other_side (turn R (board s)), ''Illegal move''))"
    using entered by (simp add: play_loop.simps [of R X m s])
  have "play_loop R X m (initial_state R m) = play_loop R X m s"
    using reached play_loop_continue [of s R X m "initial_state R m"] by auto
  with here have "play_loop R X m (initial_state R m)
      = Inr (s, Some (other_side (turn R (board s)), ''Illegal move''))" by simp
  from play_after_loop [OF engines this]
  show ?thesis by (simp add: game_result_def Let_def)
qed


lemma blunder_start_engines: "start_engines demo_world blunder_dialogue (demo_match tc) = None"
  by (simp add: start_engines_def UCIEngine_def start_def demo_world_def blunder_dialogue_def demo_match_def)

lemma blunder_plies:
  "\<lparr>board = [''e2e4''], move_count = 1, time_white = 59980, time_black = 60000,
      nodes_white = 0, nodes_black = 0\<rparr>
     \<in> set (plies demo_rules blunder_dialogue (demo_match 60000)
              (initial_state demo_rules (demo_match 60000)))"
proof -
  have "ply demo_rules blunder_dialogue (demo_match 60000) (initial_state demo_rules (demo_match 60000))
     = Inr (Moved \<lparr>board = [''e2e4''], move_count = 1, time_white = 59980, time_black = 60000,
                    nodes_white = 0, nodes_black = 0\<rparr>)"
    by (simp add: ply_def demo_rules_def blunder_dialogue_def demo_match_def initial_state_def
        update_time_def track_nodes_def)
  then show ?thesis
    by (subst plies.simps) (simp add: demo_rules_def demo_match_def initial_state_def)
qed

lemma opening_start_engines: "start_engines demo_world (demo_dialogue e tok) opening_match = None"
  by (simp add: start_engines_def UCIEngine_def start_def demo_world_def demo_dialogue_def
      demo_match_def opening_match_def)

lemma opening_state:
  "initial_state demo_rules opening_match
     = \<lparr>board = [''e2e4''], move_count = 0, time_white = 60000, time_black = 60000,
        nodes_white = 0, nodes_black = 0\<rparr>"
  by (simp add: initial_state_def opening_match_def demo_match_def demo_rules_def)

theorem illegal_move_ends_game_witness:
  "winner (play demo_world demo_rules (demo_dialogue 20 ''a1a1'') opening_match) = Some ''white''
   \<and> reason (play demo_world demo_rules (demo_dialogue 20 ''a1a1'') opening_match) = ''Illegal move''
   \<and> moves (play demo_world demo_rules (demo_dialogue 20 ''a1a1'') opening_match) = [''e2e4'']
   \<and> winner (play demo_world demo_rules (demo_dialogue 20 ''a1a1'') (demo_match 60000)) = Some ''black''
   \<and> reason (play demo_world demo_rules (demo_dialogue 20 ''a1a1'') (demo_match 60000)) = ''Illegal move''
   \<and> moves (play demo_world demo_rules (demo_dialogue 20 ''a1a1'') (demo_match 60000)) = []
   \<and> winner (play demo_world demo_rules blunder_dialogue (demo_match 60000)) = Some ''white''
   \<and> reason (play demo_world demo_rules blunder_dialogue (demo_match 60000)) = ''Illegal move''
   \<and> moves (play demo_world demo_rules blunder_dialogue (demo_match 60000)) = [''e2e4'']
   \<and> result_time_white (play demo_world demo_rules blunder_dialogue (demo_match 60000)) = 59980"
proof -
  let ?s0 = "initial_state demo_rules (demo_match 60000)"
  let ?s1 = "\<lparr>board = [''e2e4''], move_count = 1, time_white = 59980, time_black = 60000,
      nodes_white = 0, nodes_black = (0::int)\<rparr>"
  have a: "?s0 = initial_state demo_rules (demo_match 60000)
       \<or> (?s0 \<in> set (plies demo_rules (demo_dialogue 20 ''a1a1'') (demo_match 60000) ?s0)
           \<and> 0 < time_white ?s0 \<and> 0 < time_black ?s0)"
    by simp
  have a1: "\<not> is_game_over demo_rules (board ?s0)" "move_count ?s0 < max_moves (demo_match 60000)"
    by (simp_all add: demo_rules_def demo_match_def initial_state_def)
  have a2: "search (demo_dialogue 20 ''a1a1'') (nat (move_count ?s0))
        = GoReturns 20 \<lparr>bestmove = Some ''a1a1'', info = []\<rparr>"
    "bestmove \<lparr>bestmove = Some ''a1a1'', info = []\<rparr> = Some ''a1a1''" "''a1a1'' \<noteq> []"
    by (simp_all add: demo_dialogue_def)
  have a3: "from_uci demo_rules ''a1a1'' = None
     \<or> (\<exists>mv. from_uci demo_rules ''a1a1'' = Some mv \<and> \<not> legal demo_rules (board ?s0) mv)"
    by (simp add: demo_rules_def)
  have b: "?s1 = initial_state demo_rules (demo_match 60000)
       \<or> (?s1 \<in> set (plies demo_rules blunder_dialogue (demo_match 60000) ?s0)
           \<and> 0 < time_white ?s1 \<and> 0 < time_black ?s1)"
    using blunder_plies by simp
  have b1: "\<not> is_game_over demo_rules (board ?s1)" "move_count ?s1 < max_moves (demo_match 60000)"
    by (simp_all add: demo_rules_def demo_match_def)
  have b2: "search blunder_dialogue (nat (move_count ?s1))
        = GoReturns 20 \<lparr>bestmove = Some ''e2e5'', info = []\<rparr>"
    "bestmove \<lparr>bestmove = Some ''e2e5'', info = []\<rparr> = Some ''e2e5''" "''e2e5'' \<noteq> []"
    by (simp_all add: blunder_dialogue_def)
  have b3: "from_uci demo_rules ''e2e5'' = None
     \<or> (\<exists>mv. from_uci demo_rules ''e2e5'' = Some mv \<and> \<not> legal demo_rules (board ?s1) mv)"
    by (simp add: demo_rules_def)
  from illegal_move_ends_game [OF demo_start_engines a a1 a2 a3]
  have 1: "winner (play demo_world demo_rules (demo_dialogue 20 ''a1a1'') (demo_match 60000)) = Some ''black''
   \<and> reason (play demo_world demo_rules (demo_dialogue 20 ''a1a1'') (demo_match 60000)) = ''Illegal move''
   \<and> moves (play demo_world demo_rules (demo_dialogue 20 ''a1a1'') (demo_match 60000)) = []"
    by (simp add: other_side_def) (simp add: demo_rules_def demo_match_def initial_state_def)
  from illegal_move_ends_game [OF blunder_start_engines b b1 b2 b3]
  have 2: "winner (play demo_world demo_rules blunder_dialogue (demo_match 60000)) = Some ''white''
   \<and> reason (play demo_world demo_rules blunder_dialogue (demo_match 60000)) = ''Illegal move''
   \<and> moves (play demo_world demo_rules blunder_dialogue (demo_match 60000)) = [''e2e4'']
   \<and> result_time_white (play demo_world demo_rules blunder_dialogue (demo_match 60000)) = 59980"
    by (simp add: other_side_def) (simp add: demo_rules_def)
  let ?s2 = "initial_state demo_rules opening_match"
  have c: "?s2 = initial_state demo_rules opening_match
       \<or> (?s2 \<in> set (plies demo_rules (demo_dialogue 20 ''a1a1'') opening_match ?s2)
           \<and> 0 < time_white ?s2 \<and> 0 < time_black ?s2)"
    by simp
  have c1: "\<not> is_game_over demo_rules (board ?s2)" "move_count ?s2 < max_moves opening_match"
    by (simp_all add: opening_state) (simp_all add: demo_rules_def opening_match_def demo_match_def)
  have c2: "search (demo_dialogue 20 ''a1a1'') (nat (move_count ?s2))
        = GoReturns 20 \<lparr>bestmove = Some ''a1a1'', info = []\<rparr>"
    by (simp add: demo_dialogue_def)
  have c3: "from_uci demo_rules ''a1a1'' = None
     \<or> (\<exists>mv. from_uci demo_rules ''a1a1'' = Some mv \<and> \<not> legal demo_rules (board ?s2) mv)"
    by (simp add: demo_rules_def)
  from illegal_move_ends_game [OF opening_start_engines c c1 c2 a2(2,3) c3]
  have 3: "winner (play demo_world demo_rules (demo_dialogue 20 ''a1a1'') opening_match) = Some ''white''
   \<and> reason (play demo_world demo_rules (demo_dialogue 20 ''a1a1'') opening_match) = ''Illegal move''
   \<and> moves (play demo_world demo_rules (demo_dialogue 20 ''a1a1'') opening_match) = [''e2e4'']"
    by (simp add: opening_state other_side_def) (simp add: demo_rules_def)
  from 1 2 3 show ?thesis by simp
qed


section \<open>Properties of the scheduler\<close>

subsection \<open>What a game and a pairing change\<close>

lemma play_game_frame:
  "engine_manager (fst (play_game S TE wc bc opening)) = engine_manager (fst TE)"
  "rounds (fst (play_game S TE wc bc opening)) = rounds (fst TE)"
  "total_games (fst (play_game S TE wc bc opening)) = total_games (fst TE)"
  "opening_book (fst (play_game S TE wc bc opening)) = opening_book (fst TE)"
  "tournament_time_control (fst (play_game S TE wc bc opening)) = tournament_time_control (fst TE)"
  "tournament_increment (fst (play_game S TE wc bc opening)) = tournament_increment (fst TE)"
  "choices (snd (play_game S TE wc bc opening)) = choices (snd TE)"
  by (simp_all add: play_game_def Let_def)

lemma play_game_counts:
  "current_game (fst (play_game S TE wc bc opening)) = current_game (fst TE) + 1"
  "played (snd (play_game S TE wc bc opening)) = played (snd TE) @ [match_of (fst TE) wc bc opening]"
  by (simp_all add: play_game_def Let_def)

lemma match_of_frame:
  "tournament_time_control T' = tournament_time_control T \<Longrightarrow>
   tournament_increment T' = tournament_increment T \<Longrightarrow>
   match_of T' wc bc opening = match_of T wc bc opening"
  by (simp add: match_of_def)

lemma select_opening_frame:
  "fst (select_opening S T E) =
     (if opening_book T \<noteq> [] then random_choice (random_source S (choices E)) (opening_book T) else [])"
  "played (snd (select_opening S T E)) = played E"
  "choices (snd (select_opening S T E)) = (if opening_book T \<noteq> [] then choices E + 1 else choices E)"
  by (simp_all add: select_opening_def)

lemma match_of_after_game:
  "match_of (fst (play_game S (T, E) wc bc o1)) wc' bc' o2 = match_of T wc' bc' o2"
  by (rule match_of_frame) (simp_all only: play_game_frame fst_conv)

lemma play_pairing_both:
  assumes "engine_manager (fst TE) (fst pr) = Some wc" "engine_manager (fst TE) (snd pr) = Some bc"
  shows "play_pairing S TE pr =
     play_game S
       (play_game S (fst TE, snd (select_opening S (fst TE) (snd TE))) wc bc
          (fst (select_opening S (fst TE) (snd TE))))
       bc wc (fst (select_opening S (fst TE) (snd TE)))"
  using assms by (simp add: play_pairing_def case_prod_beta)

lemma play_pairing_skip:
  "engine_manager (fst TE) (fst pr) = None \<or> engine_manager (fst TE) (snd pr) = None
     \<Longrightarrow> play_pairing S TE pr = TE"
  by (auto simp: play_pairing_def split: option.splits)

lemma play_pairing_frame:
  "engine_manager (fst (play_pairing S TE pr)) = engine_manager (fst TE)"
  "rounds (fst (play_pairing S TE pr)) = rounds (fst TE)"
  "total_games (fst (play_pairing S TE pr)) = total_games (fst TE)"
  "opening_book (fst (play_pairing S TE pr)) = opening_book (fst TE)"
  "tournament_time_control (fst (play_pairing S TE pr)) = tournament_time_control (fst TE)"
  "tournament_increment (fst (play_pairing S TE pr)) = tournament_increment (fst TE)"
proof -
  consider (skip) "engine_manager (fst TE) (fst pr) = None \<or> engine_manager (fst TE) (snd pr) = None"
    | (both) wc bc where "engine_manager (fst TE) (fst pr) = Some wc" "engine_manager (fst TE) (snd pr) = Some bc"
    by (cases "engine_manager (fst TE) (fst pr)"; cases "engine_manager (fst TE) (snd pr)") auto
  then have "engine_manager (fst (play_pairing S TE pr)) = engine_manager (fst TE)
    \<and> rounds (fst (play_pairing S TE pr)) = rounds (fst TE)
    \<and> total_games (fst (play_pairing S TE pr)) = total_games (fst TE)
    \<and> opening_book (fst (play_pairing S TE pr)) = opening_book (fst TE)
    \<and> tournament_time_control (fst (play_pairing S TE pr)) = tournament_time_control (fst TE)
    \<and> tournament_increment (fst (play_pairing S TE pr)) = tournament_increment (fst TE)"
  proof cases
    case skip
    then show ?thesis by (simp only: play_pairing_skip simp_thms)
  next
    case both
    show ?thesis by (simp only: play_pairing_both [OF both] play_game_frame fst_conv simp_thms)
  qed
  then show "engine_manager (fst (play_pairing S TE pr)) = engine_manager (fst TE)"
  "rounds (fst (play_pairing S TE pr)) = rounds (fst TE)"
  "total_games (fst (play_pairing S TE pr)) = total_games (fst TE)"
  "opening_book (fst (play_pairing S TE pr)) = opening_book (fst TE)"
  "tournament_time_control (fst (play_pairing S TE pr)) = tournament_time_control (fst TE)"
  "tournament_increment (fst (play_pairing S TE pr)) = tournament_increment (fst TE)"
    by simp_all
qed

lemma play_pairing_played:
  assumes "engine_manager (fst TE) (fst pr) = Some wc" "engine_manager (fst TE) (snd pr) = Some bc"
  shows "current_game (fst (play_pairing S TE pr)) = current_game (fst TE) + 2"
    and "played (snd (play_pairing S TE pr)) = played (snd TE) @
           [match_of (fst TE) wc bc (chosen S (fst TE) (choices (snd TE))),
            match_of (fst TE) bc wc (chosen S (fst TE) (choices (snd TE)))]"
    and "choices (snd (play_pairing S TE pr)) =
           (if opening_book (fst TE) \<noteq> [] then choices (snd TE) + 1 else choices (snd TE))"
proof -
  let ?TE1 = "play_game S (fst TE, snd (select_opening S (fst TE) (snd TE))) wc bc
          (fst (select_opening S (fst TE) (snd TE)))"
  have o: "fst (select_opening S (fst TE) (snd TE)) = chosen S (fst TE) (choices (snd TE))"
    by (simp only: select_opening_frame chosen_def)
  show "current_game (fst (play_pairing S TE pr)) = current_game (fst TE) + 2"
    by (simp only: play_pairing_both [OF assms] play_game_counts fst_conv)
  show "played (snd (play_pairing S TE pr)) = played (snd TE) @
           [match_of (fst TE) wc bc (chosen S (fst TE) (choices (snd TE))),
            match_of (fst TE) bc wc (chosen S (fst TE) (choices (snd TE)))]"
    unfolding play_pairing_both [OF assms] play_game_counts o match_of_after_game
    by (simp only: fst_conv snd_conv select_opening_frame append_assoc append.simps)
  show "choices (snd (play_pairing S TE pr)) =
           (if opening_book (fst TE) \<noteq> [] then choices (snd TE) + 1 else choices (snd TE))"
    by (simp only: play_pairing_both [OF assms] play_game_frame snd_conv select_opening_frame)
qed

subsection \<open>A round and a run\<close>

lemma chosen_frame:
  "opening_book T' = opening_book T \<Longrightarrow> (opening_book T \<noteq> [] \<Longrightarrow> c' = c)
     \<Longrightarrow> chosen S T' c' = chosen S T c"
  by (auto simp: chosen_def)

lemma pairing_games_frame:
  assumes "engine_manager T' = engine_manager T" "opening_book T' = opening_book T"
    "tournament_time_control T' = tournament_time_control T"
    "tournament_increment T' = tournament_increment T"
    "opening_book T \<noteq> [] \<Longrightarrow> c' = c"
  shows "pairing_games S T' c' ps = pairing_games S T c ps"
  using assms(5)
proof (induction ps arbitrary: c c')
  case Nil
  show ?case by simp
next
  case (Cons pr ps)
  have ch: "chosen S T' c' = chosen S T c"
    using assms(2) Cons.prems by (rule chosen_frame)
  have rest: "pairing_games S T' (Suc c') ps = pairing_games S T (Suc c) ps"
    using Cons.prems by (intro Cons.IH) simp
  show ?case
    by (simp only: pairing_games.simps ch rest assms(1) match_of_frame [OF assms(3,4)])
qed

lemma foldl_play_pairing_frame:
  "engine_manager (fst (foldl (play_pairing S) TE ps)) = engine_manager (fst TE)
   \<and> rounds (fst (foldl (play_pairing S) TE ps)) = rounds (fst TE)
   \<and> total_games (fst (foldl (play_pairing S) TE ps)) = total_games (fst TE)
   \<and> opening_book (fst (foldl (play_pairing S) TE ps)) = opening_book (fst TE)
   \<and> tournament_time_control (fst (foldl (play_pairing S) TE ps)) = tournament_time_control (fst TE)
   \<and> tournament_increment (fst (foldl (play_pairing S) TE ps)) = tournament_increment (fst TE)"
proof (induction ps arbitrary: TE)
  case Nil
  show ?case by simp
next
  case (Cons pr ps)
  show ?case
    by (simp only: foldl_Cons Cons.IH [of "play_pairing S TE pr"] play_pairing_frame simp_thms)
qed

lemma foldl_play_pairing_played:
  assumes "resolves (fst TE) ps"
  shows "current_game (fst (foldl (play_pairing S) TE ps)) = current_game (fst TE) + 2 * int (length ps)
    \<and> played (snd (foldl (play_pairing S) TE ps))
        = played (snd TE) @ pairing_games S (fst TE) (choices (snd TE)) ps
    \<and> choices (snd (foldl (play_pairing S) TE ps))
        = (if opening_book (fst TE) \<noteq> [] then choices (snd TE) + length ps else choices (snd TE))"
  using assms
proof (induction ps arbitrary: TE)
  case Nil
  show ?case by simp
next
  case (Cons pr ps)
  let ?TE1 = "play_pairing S TE pr"
  from Cons.prems obtain wc bc where
    wc: "engine_manager (fst TE) (fst pr) = Some wc" and bc: "engine_manager (fst TE) (snd pr) = Some bc"
    and rest: "resolves (fst TE) ps"
    by (auto simp: resolves_def)
  have res1: "resolves (fst ?TE1) ps"
    using rest by (simp only: resolves_def play_pairing_frame)
  note IH = Cons.IH [OF res1]
  note P = play_pairing_played [OF wc bc, of S]
  have pg: "pairing_games S (fst ?TE1) (choices (snd ?TE1)) ps
      = pairing_games S (fst TE) (Suc (choices (snd TE))) ps"
    by (rule pairing_games_frame) (simp_all only: play_pairing_frame P(3), simp)
  have cg: "current_game (fst (foldl (play_pairing S) TE (pr # ps)))
      = current_game (fst TE) + 2 * int (length (pr # ps))"
    using IH P(1) by simp
  have pl: "played (snd (foldl (play_pairing S) TE (pr # ps)))
        = played (snd TE) @ pairing_games S (fst TE) (choices (snd TE)) (pr # ps)"
    using IH P(2) pg wc bc by simp
  have ch: "choices (snd (foldl (play_pairing S) TE (pr # ps)))
        = (if opening_book (fst TE) \<noteq> [] then choices (snd TE) + length (pr # ps) else choices (snd TE))"
    using IH P(3) by (simp add: play_pairing_frame)
  from cg pl ch show ?case by blast
qed

lemma play_rounds_foldl:
  "play_rounds S k ps TE = foldl (play_pairing S) TE (concat (replicate k ps))"
  by (induction k arbitrary: TE) (simp_all add: play_round_def)

lemma length_combinations2:
  "2 * int (length (combinations2 xs)) = int (length xs) * (int (length xs) - 1)"
  by (induction xs) (simp_all add: algebra_simps)

lemma combinations2_subset:
  "pr \<in> set (combinations2 xs) \<Longrightarrow> fst pr \<in> set xs \<and> snd pr \<in> set xs"
  by (induction xs) auto

subsection \<open>The pairings of a run\<close>

lemma combinations2_nth:
  "combinations2 xs
     = concat (map (\<lambda>i. map (\<lambda>j. (xs ! i, xs ! j)) [Suc i..<length xs]) [0..<length xs])"
proof (induction xs)
  case Nil
  show ?case by simp
next
  case (Cons x xs)
  have a: "[0..<length (x # xs)] = 0 # map Suc [0..<length xs]"
    by (simp only: length_Cons map_Suc_upt upt_conv_Cons [OF zero_less_Suc])
  have b: "\<And>i. [Suc i..<length (x # xs)] = map Suc [i..<length xs]"
    by (simp add: map_Suc_upt)
  have c: "map (Pair x) xs = map (\<lambda>j. (x, xs ! j)) [0..<length xs]"
    by (rule nth_equalityI) simp_all
  show ?case
    unfolding a b by (simp add: comp_def c Cons.IH [symmetric] del: upt_Suc)
qed

lemma resolves_concat_replicate:
  "resolves T ps \<Longrightarrow> resolves T (concat (replicate k ps))"
  by (induction k) (simp_all add: resolves_def)

lemma resolves_combinations2:
  assumes "\<forall>nm \<in> set names. engine_manager T nm \<noteq> None"
  shows "resolves T (combinations2 names)"
  unfolding resolves_def list_all_iff using assms combinations2_subset by blast

lemma length_pairing_games: "length (pairing_games S T c ps) = 2 * length ps"
  by (induction ps arbitrary: c) simp_all

lemma run_round_robin_unfold:
  "run_round_robin S TE names =
     foldl (play_pairing S)
       ((fst TE)\<lparr>stats := init_stats (stats (fst TE)) names,
                 total_games := int (length (combinations2 names)) * rounds (fst TE) * 2\<rparr>, snd TE)
       (concat (replicate (nat (rounds (fst TE))) (combinations2 names)))"
  by (simp add: run_round_robin_def Let_def play_rounds_foldl)

lemma run_round_robin_total:
  "total_games (fst (run_round_robin S TE names))
     = int (length names) * (int (length names) - 1) * rounds (fst TE)"
proof -
  let ?T2 = "(fst TE)\<lparr>stats := init_stats (stats (fst TE)) names,
                 total_games := int (length (combinations2 names)) * rounds (fst TE) * 2\<rparr>"
  let ?ps = "concat (replicate (nat (rounds (fst TE))) (combinations2 names))"
  have "total_games (fst (run_round_robin S TE names)) = total_games ?T2"
    unfolding run_round_robin_unfold using foldl_play_pairing_frame [of S "(?T2, snd TE)" ?ps] by simp
  also have "\<dots> = int (length names) * (int (length names) - 1) * rounds (fst TE)"
    unfolding length_combinations2 [symmetric] by simp
  finally show ?thesis .
qed

lemma run_round_robin_played:
  assumes "\<forall>nm \<in> set names. engine_manager (fst TE) nm \<noteq> None"
  shows "current_game (fst (run_round_robin S TE names))
          = current_game (fst TE)
            + 2 * int (length (concat (replicate (nat (rounds (fst TE))) (combinations2 names))))"
    and "played (snd (run_round_robin S TE names))
          = played (snd TE) @ pairing_games S (fst TE) (choices (snd TE))
              (concat (replicate (nat (rounds (fst TE))) (combinations2 names)))"
    and "choices (snd (run_round_robin S TE names))
          = (if opening_book (fst TE) \<noteq> []
             then choices (snd TE) + length (concat (replicate (nat (rounds (fst TE))) (combinations2 names)))
             else choices (snd TE))"
proof -
  let ?T2 = "(fst TE)\<lparr>stats := init_stats (stats (fst TE)) names,
                 total_games := int (length (combinations2 names)) * rounds (fst TE) * 2\<rparr>"
  let ?ps = "concat (replicate (nat (rounds (fst TE))) (combinations2 names))"
  from assms have "resolves ?T2 (combinations2 names)"
    by (intro resolves_combinations2) simp
  then have res: "resolves (fst (?T2, snd TE)) ?ps"
    by (simp add: resolves_concat_replicate)
  note F = foldl_play_pairing_played [OF res, of S, folded run_round_robin_unfold]
  have pg: "pairing_games S ?T2 (choices (snd TE)) ?ps = pairing_games S (fst TE) (choices (snd TE)) ?ps"
    by (rule pairing_games_frame) simp_all
  show "current_game (fst (run_round_robin S TE names)) = current_game (fst TE) + 2 * int (length ?ps)"
    using F by simp
  show "played (snd (run_round_robin S TE names))
          = played (snd TE) @ pairing_games S (fst TE) (choices (snd TE)) ?ps"
    using F pg by simp
  show "choices (snd (run_round_robin S TE names))
          = (if opening_book (fst TE) \<noteq> [] then choices (snd TE) + length ?ps else choices (snd TE))"
    using F by simp
qed

lemma run_gauntlet_unfold:
  "run_gauntlet S TE test_engine opponents =
     foldl (play_pairing S)
       ((fst TE)\<lparr>stats := init_stats (stats (fst TE)) (test_engine # opponents),
                 total_games := int (length opponents) * rounds (fst TE) * 2\<rparr>, snd TE)
       (concat (replicate (nat (rounds (fst TE))) (map (Pair test_engine) opponents)))"
  by (simp add: run_gauntlet_def Let_def play_rounds_foldl)

lemma run_gauntlet_played:
  assumes "\<forall>nm \<in> set (test_engine # opponents). engine_manager (fst TE) nm \<noteq> None"
  shows "played (snd (run_gauntlet S TE test_engine opponents))
          = played (snd TE) @ pairing_games S (fst TE) (choices (snd TE))
              (concat (replicate (nat (rounds (fst TE))) (map (Pair test_engine) opponents)))"
    and "choices (snd (run_gauntlet S TE test_engine opponents))
          = (if opening_book (fst TE) \<noteq> []
             then choices (snd TE)
                  + length (concat (replicate (nat (rounds (fst TE))) (map (Pair test_engine) opponents)))
             else choices (snd TE))"
proof -
  let ?T2 = "(fst TE)\<lparr>stats := init_stats (stats (fst TE)) (test_engine # opponents),
                 total_games := int (length opponents) * rounds (fst TE) * 2\<rparr>"
  let ?ps = "concat (replicate (nat (rounds (fst TE))) (map (Pair test_engine) opponents))"
  from assms have "resolves ?T2 (map (Pair test_engine) opponents)"
    by (simp add: resolves_def list_all_iff)
  then have res: "resolves (fst (?T2, snd TE)) ?ps"
    by (simp add: resolves_concat_replicate)
  note F = foldl_play_pairing_played [OF res, of S, folded run_gauntlet_unfold]
  have pg: "pairing_games S ?T2 (choices (snd TE)) ?ps = pairing_games S (fst TE) (choices (snd TE)) ?ps"
    by (rule pairing_games_frame) simp_all
  show "played (snd (run_gauntlet S TE test_engine opponents))
          = played (snd TE) @ pairing_games S (fst TE) (choices (snd TE)) ?ps"
    using F pg by simp
  show "choices (snd (run_gauntlet S TE test_engine opponents))
          = (if opening_book (fst TE) \<noteq> [] then choices (snd TE) + length ?ps else choices (snd TE))"
    using F by simp
qed

lemma length_rounds_pairings:
  "0 \<le> r \<Longrightarrow> 2 * int (length (concat (replicate (nat r) (combinations2 names))))
     = int (length names) * (int (length names) - 1) * r"
  unfolding length_combinations2 [symmetric] by (simp add: length_concat sum_list_replicate)

text \<open>
  C3. \<open>run_round_robin\<close> on a roster of \<open>n\<close> engines with \<open>r\<close> rounds plans
  \<open>n (n - 1) r\<close> games; the pairings are the pairs of roster positions \<open>i < j\<close>, each
  generated once. When the roster's engines are in the registry (and \<open>r\<close> is not
  negative, so in particular for \<open>n \<ge> 2\<close> and \<open>r \<ge> 1\<close>), \<open>n (n - 1) r\<close> games are played:
  per round and pairing two games, the second with the colours swapped.
\<close>

theorem round_robin_game_count:
  "total_games (fst (run_round_robin S TE names))
     = int (length names) * (int (length names) - 1) * rounds (fst TE)
   \<and> combinations2 names
       = concat (map (\<lambda>i. map (\<lambda>j. (names ! i, names ! j)) [Suc i..<length names]) [0..<length names])
   \<and> ((\<forall>nm \<in> set names. engine_manager (fst TE) nm \<noteq> None) \<and> 0 \<le> rounds (fst TE) \<longrightarrow>
        current_game (fst (run_round_robin S TE names))
          = current_game (fst TE) + int (length names) * (int (length names) - 1) * rounds (fst TE)
        \<and> played (snd (run_round_robin S TE names))
          = played (snd TE) @ pairing_games S (fst TE) (choices (snd TE))
              (concat (replicate (nat (rounds (fst TE))) (combinations2 names)))
        \<and> int (length (played (snd (run_round_robin S TE names))))
          = int (length (played (snd TE)))
            + int (length names) * (int (length names) - 1) * rounds (fst TE))"
proof (intro conjI impI)
  show "total_games (fst (run_round_robin S TE names))
     = int (length names) * (int (length names) - 1) * rounds (fst TE)"
    by (rule run_round_robin_total)
  show "combinations2 names
       = concat (map (\<lambda>i. map (\<lambda>j. (names ! i, names ! j)) [Suc i..<length names]) [0..<length names])"
    by (rule combinations2_nth)
  assume h: "(\<forall>nm \<in> set names. engine_manager (fst TE) nm \<noteq> None) \<and> 0 \<le> rounds (fst TE)"
  then have reg: "\<forall>nm \<in> set names. engine_manager (fst TE) nm \<noteq> None" and r: "0 \<le> rounds (fst TE)"
    by simp_all
  note P = run_round_robin_played [OF reg, of S]
  note len = length_rounds_pairings [OF r, of names]
  show "current_game (fst (run_round_robin S TE names))
          = current_game (fst TE) + int (length names) * (int (length names) - 1) * rounds (fst TE)"
    using P(1) len by simp
  show "played (snd (run_round_robin S TE names))
          = played (snd TE) @ pairing_games S (fst TE) (choices (snd TE))
              (concat (replicate (nat (rounds (fst TE))) (combinations2 names)))"
    by (rule P(2))
  show "int (length (played (snd (run_round_robin S TE names))))
          = int (length (played (snd TE)))
            + int (length names) * (int (length names) - 1) * rounds (fst TE)"
    unfolding P(2) using len by (simp add: length_pairing_games)
qed

theorem round_robin_game_count_witness:
  "total_games (fst (run_round_robin demo_surroundings
       (Tournament ''demo'' demo_manager 60000 0 1 [], no_effects) [''A'', ''B'', ''C''])) = 6
   \<and> current_game (fst (run_round_robin demo_surroundings
       (Tournament ''demo'' demo_manager 60000 0 1 [], no_effects) [''A'', ''B'', ''C''])) = 6
   \<and> length (played (snd (run_round_robin demo_surroundings
       (Tournament ''demo'' demo_manager 60000 0 1 [], no_effects) [''A'', ''B'', ''C'']))) = 6
   \<and> combinations2 [''A'', ''B'', ''C''] = [(''A'', ''B''), (''A'', ''C''), (''B'', ''C'')]"
proof -
  have reg: "\<forall>nm \<in> set [''A'', ''B'', ''C'']. engine_manager (fst (Tournament ''demo'' demo_manager 60000 0 1 [], no_effects)) nm \<noteq> None"
    by (simp add: Tournament_def demo_manager_def)
  have r: "rounds (fst (Tournament ''demo'' demo_manager 60000 0 1 [], no_effects)) = 1"
    "current_game (fst (Tournament ''demo'' demo_manager 60000 0 1 [], no_effects)) = 0"
    "played (snd (Tournament ''demo'' demo_manager 60000 0 1 [], no_effects)) = []"
    by (simp_all add: Tournament_def no_effects_def)
  from round_robin_game_count [of demo_surroundings
       "(Tournament ''demo'' demo_manager 60000 0 1 [], no_effects)" "[''A'', ''B'', ''C'']"] reg
  show ?thesis unfolding r by simp
qed

text \<open>A pairing with a name the registry does not know is skipped.\<close>

lemma round_robin_skips_unregistered:
  "length [''A'', ''X''] = 2
   \<and> rounds (Tournament ''demo'' demo_manager 60000 0 1 []) = 1
   \<and> total_games (fst (run_round_robin demo_surroundings
       (Tournament ''demo'' demo_manager 60000 0 1 [], no_effects) [''A'', ''X''])) = 2
   \<and> current_game (fst (run_round_robin demo_surroundings
       (Tournament ''demo'' demo_manager 60000 0 1 [], no_effects) [''A'', ''X''])) = 0
   \<and> played (snd (run_round_robin demo_surroundings
       (Tournament ''demo'' demo_manager 60000 0 1 [], no_effects) [''A'', ''X''])) = []"
  by (simp add: run_round_robin_unfold play_pairing_skip Tournament_def no_effects_def demo_manager_def)

subsection \<open>Openings\<close>

lemma openings_of_pairing_games:
  "map opening_moves (pairing_games S T c ps)
     = concat (map (\<lambda>k. [chosen S T (c + k), chosen S T (c + k)]) [0..<length ps])"
proof (induction ps arbitrary: c)
  case Nil
  show ?case by simp
next
  case (Cons pr ps)
  have a: "[0..<length (pr # ps)] = 0 # map Suc [0..<length ps]"
    by (simp only: length_Cons map_Suc_upt upt_conv_Cons [OF zero_less_Suc])
  show ?case
    unfolding a by (simp add: Cons.IH comp_def match_of_def)
qed

lemma chosen_from_book:
  "opening_book T \<noteq> [] \<Longrightarrow> chosen S T k \<in> set (opening_book T)"
  by (simp add: chosen_def random_choice_def)

text \<open>
  C8 (as amended). With an opening pool, one prefix is selected per pairing and round, by
  \<open>random.choice\<close> from the whole pool (so with replacement), and both colour-swapped
  games of the pairing are played on that same prefix: the games of a run of
  \<open>run_round_robin\<close> or \<open>run_gauntlet\<close> over registered engines use, two by two, the
  successive selections, and a run makes one selection per pairing and round. Without a
  pool no selection is made and every game has the empty prefix.
\<close>

theorem one_opening_per_pairing:
  "((\<forall>nm \<in> set names. engine_manager (fst TE) nm \<noteq> None) \<longrightarrow>
      map opening_moves (played (snd (run_round_robin S TE names)))
        = map opening_moves (played (snd TE))
          @ concat (map (\<lambda>k. [chosen S (fst TE) (choices (snd TE) + k),
                                  chosen S (fst TE) (choices (snd TE) + k)])
              [0..<length (combinations2 names) * nat (rounds (fst TE))])
      \<and> choices (snd (run_round_robin S TE names))
        = (if opening_book (fst TE) \<noteq> []
           then choices (snd TE) + length (combinations2 names) * nat (rounds (fst TE))
           else choices (snd TE)))
   \<and> ((\<forall>nm \<in> set (test_engine # opponents). engine_manager (fst TE) nm \<noteq> None) \<longrightarrow>
      map opening_moves (played (snd (run_gauntlet S TE test_engine opponents)))
        = map opening_moves (played (snd TE))
          @ concat (map (\<lambda>k. [chosen S (fst TE) (choices (snd TE) + k),
                                  chosen S (fst TE) (choices (snd TE) + k)])
              [0..<length opponents * nat (rounds (fst TE))])
      \<and> choices (snd (run_gauntlet S TE test_engine opponents))
        = (if opening_book (fst TE) \<noteq> []
           then choices (snd TE) + length opponents * nat (rounds (fst TE))
           else choices (snd TE)))
   \<and> (\<forall>k. chosen S (fst TE) k
          = (if opening_book (fst TE) \<noteq> []
             then opening_book (fst TE) ! (random_source S k mod length (opening_book (fst TE)))
             else [])
        \<and> (opening_book (fst TE) \<noteq> [] \<longrightarrow> chosen S (fst TE) k \<in> set (opening_book (fst TE))))"
proof (intro conjI impI allI)
  have len: "\<And>ps :: (string \<times> string) list. length (concat (replicate (nat (rounds (fst TE))) ps))
      = length ps * nat (rounds (fst TE))"
    by (simp add: length_concat sum_list_replicate)
  {
    assume reg: "\<forall>nm \<in> set names. engine_manager (fst TE) nm \<noteq> None"
    note P = run_round_robin_played [OF reg, of S]
    show "map opening_moves (played (snd (run_round_robin S TE names)))
        = map opening_moves (played (snd TE))
          @ concat (map (\<lambda>k. [chosen S (fst TE) (choices (snd TE) + k),
                                  chosen S (fst TE) (choices (snd TE) + k)])
              [0..<length (combinations2 names) * nat (rounds (fst TE))])"
      unfolding P(2) map_append openings_of_pairing_games len ..
    show "choices (snd (run_round_robin S TE names))
        = (if opening_book (fst TE) \<noteq> []
           then choices (snd TE) + length (combinations2 names) * nat (rounds (fst TE))
           else choices (snd TE))"
      unfolding P(3) len ..
  }
  {
    assume reg: "\<forall>nm \<in> set (test_engine # opponents). engine_manager (fst TE) nm \<noteq> None"
    note P = run_gauntlet_played [OF reg, of S]
    have l: "length (map (Pair test_engine) opponents) = length opponents" by simp
    show "map opening_moves (played (snd (run_gauntlet S TE test_engine opponents)))
        = map opening_moves (played (snd TE))
          @ concat (map (\<lambda>k. [chosen S (fst TE) (choices (snd TE) + k),
                                  chosen S (fst TE) (choices (snd TE) + k)])
              [0..<length opponents * nat (rounds (fst TE))])"
      unfolding P(1) map_append openings_of_pairing_games len l ..
    show "choices (snd (run_gauntlet S TE test_engine opponents))
        = (if opening_book (fst TE) \<noteq> []
           then choices (snd TE) + length opponents * nat (rounds (fst TE))
           else choices (snd TE))"
      unfolding P(2) len l ..
  }
  fix k
  show "chosen S (fst TE) k
          = (if opening_book (fst TE) \<noteq> []
             then opening_book (fst TE) ! (random_source S k mod length (opening_book (fst TE)))
             else [])"
    by (simp add: chosen_def random_choice_def)
  assume "opening_book (fst TE) \<noteq> []"
  then show "chosen S (fst TE) k \<in> set (opening_book (fst TE))"
    by (rule chosen_from_book)
qed

lemma demo_tournament_fields:
  "engine_manager (Tournament nm demo_manager tc inc r book) = demo_manager"
  "rounds (Tournament nm demo_manager tc inc r book) = r"
  "opening_book (Tournament nm demo_manager tc inc r book) = book"
  "current_game (Tournament nm demo_manager tc inc r book) = 0"
  "stats (Tournament nm demo_manager tc inc r book) = Map.empty"
  "choices no_effects = 0"
  "played no_effects = []"
  by (simp_all add: Tournament_def no_effects_def)

lemma demo_manager_registered:
  "\<exists>y. demo_manager ''A'' = Some y" "\<exists>y. demo_manager ''B'' = Some y"
  "\<exists>y. demo_manager ''C'' = Some y"
  by (simp_all add: demo_manager_def)

lemma demo_chosen:
  "chosen demo_surroundings (Tournament nm demo_manager tc inc r demo_book) 0 = [''e2e4'']"
  "chosen demo_surroundings (Tournament nm demo_manager tc inc r demo_book) (Suc 0) = [''d2d4'']"
  by (simp_all add: chosen_def random_choice_def demo_surroundings_def demo_book_def Tournament_def)

theorem one_opening_per_pairing_witness:
  "map opening_moves (played (snd (run_round_robin demo_surroundings
       (Tournament ''demo'' demo_manager 60000 0 1 demo_book, no_effects) [''A'', ''B''])))
     = [[''e2e4''], [''e2e4'']]
   \<and> choices (snd (run_round_robin demo_surroundings
       (Tournament ''demo'' demo_manager 60000 0 1 demo_book, no_effects) [''A'', ''B''])) = 1
   \<and> map opening_moves (played (snd (run_gauntlet demo_surroundings
       (Tournament ''demo'' demo_manager 60000 0 1 demo_book, no_effects) ''A'' [''B'', ''C''])))
     = [[''e2e4''], [''e2e4''], [''d2d4''], [''d2d4'']]
   \<and> choices (snd (run_gauntlet demo_surroundings
       (Tournament ''demo'' demo_manager 60000 0 1 demo_book, no_effects) ''A'' [''B'', ''C''])) = 2"
proof -
  have ne: "demo_book \<noteq> []" by (simp add: demo_book_def)
  have u: "[0..<2] = [0, Suc 0]" by (simp add: upt_rec)
  from one_opening_per_pairing [of "[''A'', ''B'']"
       "(Tournament ''demo'' demo_manager 60000 0 1 demo_book, no_effects)" demo_surroundings
       "''A''" "[''B'', ''C'']"]
  show ?thesis
    by (simp add: demo_tournament_fields demo_manager_registered demo_chosen ne u)
qed

theorem shared_opening_counterexample:
  "length (played (snd (run_round_robin demo_surroundings
       (Tournament ''demo'' demo_manager 60000 0 1 demo_book, no_effects) [''A'', ''B'']))) = 2
   \<and> choices (snd (run_round_robin demo_surroundings
       (Tournament ''demo'' demo_manager 60000 0 1 demo_book, no_effects) [''A'', ''B''])) = 1
   \<and> map opening_moves (played (snd (run_round_robin demo_surroundings
       (Tournament ''demo'' demo_manager 60000 0 1 demo_book, no_effects) [''A'', ''B''])))
     = [[''e2e4''], [''e2e4'']]
   \<and> map opening_moves (played (snd (run_round_robin demo_surroundings
       (Tournament ''demo'' demo_manager 60000 0 1 demo_book, no_effects) [''A'', ''B''])))
     \<noteq> [random_choice (random_source demo_surroundings 0) demo_book,
         random_choice (random_source demo_surroundings 1) demo_book]"
proof -
  have reg: "\<forall>nm \<in> set [''A'', ''B'']. engine_manager (fst (Tournament ''demo'' demo_manager 60000 0 1 demo_book, no_effects)) nm \<noteq> None"
    by (simp add: demo_tournament_fields demo_manager_registered)
  have ne: "demo_book \<noteq> []" by (simp add: demo_book_def)
  have rc: "random_choice (random_source demo_surroundings 0) demo_book = [''e2e4'']"
    "random_choice (random_source demo_surroundings 1) demo_book = [''d2d4'']"
    by (simp_all add: random_choice_def demo_surroundings_def demo_book_def)
  note P = run_round_robin_played [OF reg, of demo_surroundings]
  show ?thesis
    unfolding P rc
    by (simp add: demo_tournament_fields ne match_of_def demo_chosen)
qed

subsection \<open>Bookkeeping of one game\<close>

lemma update_stats_other:
  "nm' \<noteq> nm \<Longrightarrow> update_stats st nm res color nodes nm' = st nm'"
  by (simp add: update_stats_def split: option.splits)

lemma update_stats_same:
  "st nm = Some acc \<Longrightarrow> update_stats st nm res color nodes nm = Some (add_result acc res color nodes)"
  by (simp add: update_stats_def)

lemma add_result_draw:
  "add_result acc ''draw'' color nodes
     = acc\<lparr>games_played := games_played acc + 1, total_nodes := total_nodes acc + nodes,
           draws := draws acc + 1, points := points acc + 1 / 2\<rparr>"
  by (simp add: add_result_def Let_def)

lemma record_result_draw:
  assumes "winner res \<noteq> Some ''white''" "winner res \<noteq> Some ''black''"
    and "st wn = Some aw" "st bn = Some ab" "wn \<noteq> bn"
  shows "record_result st wn bn res wn = Some (add_result aw ''draw'' ''white'' (result_nodes_white res))"
    and "record_result st wn bn res bn = Some (add_result ab ''draw'' ''black'' (result_nodes_black res))"
    and "nm \<noteq> wn \<Longrightarrow> nm \<noteq> bn \<Longrightarrow> record_result st wn bn res nm = st nm"
proof -
  have rr: "record_result st wn bn res =
      update_stats (update_stats st wn ''draw'' ''white'' (result_nodes_white res))
          bn ''draw'' ''black'' (result_nodes_black res)"
    using assms(1,2) by (simp add: record_result_def)
  show "record_result st wn bn res wn = Some (add_result aw ''draw'' ''white'' (result_nodes_white res))"
    unfolding rr using assms(3,5) by (simp add: update_stats_other update_stats_same)
  have "update_stats st wn ''draw'' ''white'' (result_nodes_white res) bn = Some ab"
    using assms(4,5) by (simp add: update_stats_other)
  then show "record_result st wn bn res bn = Some (add_result ab ''draw'' ''black'' (result_nodes_black res))"
    unfolding rr by (rule update_stats_same)
  show "nm \<noteq> wn \<Longrightarrow> nm \<noteq> bn \<Longrightarrow> record_result st wn bn res nm = st nm"
    unfolding rr by (simp add: update_stats_other)
qed

lemma play_game_stats:
  assumes "stats T (cfg_name wc) = Some aw" "stats T (cfg_name bc) = Some ab"
  shows "stats (fst (play_game S (T, E) wc bc opening))
     = record_result (stats T) (cfg_name wc) (cfg_name bc) (match_played S T wc bc opening)"
  using assms by (simp add: play_game_def Let_def)

text \<open>
  C10. When the winner of the match result is neither \<open>white\<close> nor \<open>black\<close> (so also
  when it is \<open>error\<close>), \<open>_play_game\<close> books the game as a draw for both participants:
  the accumulator of each (two different engines, both with an accumulator) gains one
  game, one draw and half a point, and the nodes the result reports for its colour;
  its wins and losses stay as they were.
\<close>

theorem error_counts_as_draw:
  assumes "winner (match_played S T wc bc opening) \<noteq> Some ''white''"
    and "winner (match_played S T wc bc opening) \<noteq> Some ''black''"
    and "stats T (cfg_name wc) = Some aw" and "stats T (cfg_name bc) = Some ab"
    and "cfg_name wc \<noteq> cfg_name bc"
  shows "stats (fst (play_game S (T, E) wc bc opening)) (cfg_name wc)
           = Some (aw\<lparr>games_played := games_played aw + 1,
                       total_nodes := total_nodes aw + result_nodes_white (match_played S T wc bc opening),
                       draws := draws aw + 1, points := points aw + 1 / 2\<rparr>)
       \<and> stats (fst (play_game S (T, E) wc bc opening)) (cfg_name bc)
           = Some (ab\<lparr>games_played := games_played ab + 1,
                       total_nodes := total_nodes ab + result_nodes_black (match_played S T wc bc opening),
                       draws := draws ab + 1, points := points ab + 1 / 2\<rparr>)"
  unfolding play_game_stats [OF assms(3,4)] record_result_draw(1,2) [OF assms] add_result_draw
  by simp

lemma missing_engine_error:
  "\<not> path_exists (machine S) (cfg_path wc) \<Longrightarrow>
     match_played S T wc bc opening
       = MatchResult\<lparr>winner := Some ''error'', reason := ''Engine not found: '' @ cfg_path wc\<rparr>"
  by (simp add: match_played_def play_def play_try_def start_engines_def UCIEngine_def match_of_def)

theorem error_counts_as_draw_witness:
  "winner (match_played demo_surroundings demo_running cfg_A cfg_B []) = Some ''error''
   \<and> stats (fst (play_game demo_surroundings (demo_running, no_effects) cfg_A cfg_B [])) ''A''
       = Some ((TournamentStats ''A'')\<lparr>games_played := 1, draws := 1, points := 1 / 2\<rparr>)
   \<and> stats (fst (play_game demo_surroundings (demo_running, no_effects) cfg_A cfg_B [])) ''B''
       = Some ((TournamentStats ''B'')\<lparr>games_played := 1, draws := 1, points := 1 / 2\<rparr>)"
proof -
  have m: "match_played demo_surroundings demo_running cfg_A cfg_B []
       = MatchResult\<lparr>winner := Some ''error'', reason := ''Engine not found: '' @ cfg_path cfg_A\<rparr>"
    by (rule missing_engine_error) (simp add: demo_surroundings_def empty_world_def)
  have w: "winner (match_played demo_surroundings demo_running cfg_A cfg_B []) = Some ''error''"
    unfolding m by simp
  have n: "result_nodes_white (match_played demo_surroundings demo_running cfg_A cfg_B []) = 0"
    "result_nodes_black (match_played demo_surroundings demo_running cfg_A cfg_B []) = 0"
    unfolding m by (simp_all add: MatchResult_def)
  have 1: "winner (match_played demo_surroundings demo_running cfg_A cfg_B []) \<noteq> Some ''white''"
    and 2: "winner (match_played demo_surroundings demo_running cfg_A cfg_B []) \<noteq> Some ''black''"
    unfolding w by simp_all
  have 3: "stats demo_running (cfg_name cfg_A) = Some (TournamentStats ''A'')"
    and 4: "stats demo_running (cfg_name cfg_B) = Some (TournamentStats ''B'')"
    and 5: "cfg_name cfg_A \<noteq> cfg_name cfg_B"
    by (simp_all add: demo_running_def init_stats_def cfg_A_def cfg_B_def)
  from error_counts_as_draw [OF 1 2 3 4 5, of no_effects] w
  show ?thesis
    unfolding n by (simp add: cfg_A_def cfg_B_def TournamentStats_def)
qed

section \<open>Properties of the protocol client\<close>

subsection \<open>Starting and stopping the process\<close>







subsection \<open>quit\<close>

lemma quit_cases:
  "(process e = None \<and> quit e = Inr e)
   \<or> (\<exists>p. process e = Some p \<and>
         (quit e = Inr (e\<lparr>process := Some (p\<lparr>alive := False\<rparr>)\<rparr>)
          \<or> quit e = Inr (e\<lparr>running := False, process := Some (p\<lparr>alive := False\<rparr>)\<rparr>)))"
  by (cases "process e")
     (auto simp: quit_def quit_try_def quit_except_def send_command_def wait_def kill_def Let_def
           split: sum.splits)

lemma quit_dead:
  assumes "process e = Some p" "\<not> alive p"
  shows "quit e = Inr e"
proof -
  have "p\<lparr>alive := False\<rparr> = p" using assms(2) by simp
  then have "e\<lparr>process := Some (p\<lparr>alive := False\<rparr>)\<rparr> = e" using assms(1) by simp
  then show ?thesis
    using assms by (simp add: quit_def quit_try_def quit_except_def send_command_def kill_def)
qed

text \<open>
  C9. \<open>quit\<close> returns without an exception on every client, and so does a second call on
  the client the first call left, which changes nothing more; after it the process, when
  there is one, is not running any more (also when it had already exited, or ignores
  the \<open>quit\<close> command and is killed).
\<close>

theorem quit_idempotent:
  "\<exists>e1. quit e = Inr e1 \<and> quit e1 = Inr e1
        \<and> (\<forall>p. process e1 = Some p \<longrightarrow> \<not> alive p)
        \<and> (process e1 = None \<longleftrightarrow> process e = None)"
proof -
  from quit_cases [of e] show ?thesis
  proof (elim disjE conjE exE)
    assume "process e = None" "quit e = Inr e"
    then show ?thesis by simp
  next
    fix p assume p: "process e = Some p"
      and q: "quit e = Inr (e\<lparr>process := Some (p\<lparr>alive := False\<rparr>)\<rparr>)"
    have "quit (e\<lparr>process := Some (p\<lparr>alive := False\<rparr>)\<rparr>) = Inr (e\<lparr>process := Some (p\<lparr>alive := False\<rparr>)\<rparr>)"
      by (rule quit_dead [of _ "p\<lparr>alive := False\<rparr>"]) simp_all
    with p q show ?thesis by simp
  next
    fix p assume p: "process e = Some p"
      and q: "quit e = Inr (e\<lparr>running := False, process := Some (p\<lparr>alive := False\<rparr>)\<rparr>)"
    have "quit (e\<lparr>running := False, process := Some (p\<lparr>alive := False\<rparr>)\<rparr>)
        = Inr (e\<lparr>running := False, process := Some (p\<lparr>alive := False\<rparr>)\<rparr>)"
      by (rule quit_dead [of _ "p\<lparr>alive := False\<rparr>"]) simp_all
    with p q show ?thesis by simp
  qed
qed

theorem quit_idempotent_witness:
  "quit stubborn_engine
     = Inr (stubborn_engine\<lparr>running := False,
              process := Some \<lparr>alive = False, accepts_input = True, obeys_quit = False\<rparr>\<rparr>)
   \<and> quit (stubborn_engine\<lparr>running := False,
              process := Some \<lparr>alive = False, accepts_input = True, obeys_quit = False\<rparr>\<rparr>)
     = Inr (stubborn_engine\<lparr>running := False,
              process := Some \<lparr>alive = False, accepts_input = True, obeys_quit = False\<rparr>\<rparr>)
   \<and> quit crashed_engine = Inr crashed_engine"
proof -
  have a: "quit stubborn_engine
     = Inr (stubborn_engine\<lparr>running := False,
              process := Some \<lparr>alive = False, accepts_input = True, obeys_quit = False\<rparr>\<rparr>)"
    by (simp add: quit_def quit_try_def quit_except_def send_command_def wait_def kill_def
        stubborn_engine_def fresh_engine_def)
  have b: "quit crashed_engine = Inr crashed_engine"
    by (simp add: quit_def quit_try_def quit_except_def send_command_def wait_def kill_def
        crashed_engine_def fresh_engine_def)
  from quit_idempotent [of stubborn_engine] a b show ?thesis by auto
qed

subsection \<open>Waiting on the queue\<close>

lemma poll_fields:
  "clock (poll ev w) = clock w + int (fst (ev (cursor w)))"
  "cursor (poll ev w) = Suc (cursor w)"
  by (simp_all add: poll_def)

lemma read_until_loop_inner:
  fixes I :: "io \<Rightarrow> string list \<Rightarrow> bool"
  assumes outer: "\<And>w lines. I w lines \<Longrightarrow> nat (s + T - clock w) < n
        \<Longrightarrow> \<exists>lines' w'. read_until_loop ev x T s w lines = Some (lines', w') \<and> I w' lines'"
    and step_none: "\<And>w lines. I w lines \<Longrightarrow> clock w - s < T \<Longrightarrow> snd (ev (cursor w)) = None
        \<Longrightarrow> I (poll ev w) lines"
    and step_line: "\<And>w lines l. I w lines \<Longrightarrow> clock w - s < T \<Longrightarrow> snd (ev (cursor w)) = Some l
        \<Longrightarrow> I (poll ev w) (lines @ [l])"
    and j: "0 < fst (ev j)"
  shows "cursor w \<le> j \<Longrightarrow> nat (s + T - clock w) \<le> n \<Longrightarrow> I w lines
     \<Longrightarrow> \<exists>lines' w'. read_until_loop ev x T s w lines = Some (lines', w') \<and> I w' lines'"
proof (induction "j - cursor w" arbitrary: w lines rule: less_induct)
  case less
  show ?case
  proof (cases "clock w - s < T")
    case False
    then have "read_until_loop ev x T s w lines = Some (lines, w)"
      by (subst read_until_loop.simps) simp
    with less.prems(3) show ?thesis by blast
  next
    case running: True
    have next_call: "\<exists>lines' w'. read_until_loop ev x T s (poll ev w) ls = Some (lines', w') \<and> I w' lines'"
      if inv: "I (poll ev w) ls" for ls
    proof (cases "0 < fst (ev (cursor w))")
      case True
      with running less.prems(2) have "nat (s + T - clock (poll ev w)) < n"
        by (simp add: poll_fields)
      with inv show ?thesis by (rule outer)
    next
      case False
      with j have "cursor w \<noteq> j" by auto
      with less.prems(1) have lt: "cursor w < j" by simp
      then have a: "j - cursor (poll ev w) < j - cursor w" "cursor (poll ev w) \<le> j"
        by (simp_all add: poll_fields)
      have b: "nat (s + T - clock (poll ev w)) \<le> n"
        using False less.prems(2) by (simp add: poll_fields)
      show ?thesis by (rule less.hyps [OF a b inv])
    qed
    show ?thesis
    proof (cases "snd (ev (cursor w))")
      case None
      have "I (poll ev w) lines" by (rule step_none [OF less.prems(3) running None])
      from next_call [OF this] None running show ?thesis
        by (subst read_until_loop.simps) simp
    next
      case (Some l)
      have inv: "I (poll ev w) (lines @ [l])" by (rule step_line [OF less.prems(3) running Some])
      show ?thesis
      proof (cases "contains x l")
        case True
        with Some running have "read_until_loop ev x T s w lines = Some (lines @ [l], poll ev w)"
          by (subst read_until_loop.simps) simp
        with inv show ?thesis by blast
      next
        case False
        from next_call [OF inv] Some running False show ?thesis
          by (subst read_until_loop.simps) simp
      qed
    qed
  qed
qed

lemma read_until_loop_rule:
  fixes I :: "io \<Rightarrow> string list \<Rightarrow> bool"
  assumes adv: "\<forall>k. \<exists>j\<ge>k. 0 < fst (ev j)"
    and step_none: "\<And>w lines. I w lines \<Longrightarrow> clock w - s < T \<Longrightarrow> snd (ev (cursor w)) = None
        \<Longrightarrow> I (poll ev w) lines"
    and step_line: "\<And>w lines l. I w lines \<Longrightarrow> clock w - s < T \<Longrightarrow> snd (ev (cursor w)) = Some l
        \<Longrightarrow> I (poll ev w) (lines @ [l])"
  shows "I w lines
     \<Longrightarrow> \<exists>lines' w'. read_until_loop ev x T s w lines = Some (lines', w') \<and> I w' lines'"
proof (induction "nat (s + T - clock w)" arbitrary: w lines rule: less_induct)
  case less
  from adv obtain j where j: "cursor w \<le> j" "0 < fst (ev j)" by blast
  show ?case
  proof (rule read_until_loop_inner [where n = "nat (s + T - clock w)" and I = I and j = j])
    fix w' lines'
    assume "I w' lines'" "nat (s + T - clock w') < nat (s + T - clock w)"
    then show "\<exists>lines'' w''. read_until_loop ev x T s w' lines' = Some (lines'', w'') \<and> I w'' lines''"
      using less.hyps by blast
  qed (use step_none step_line j less.prems in auto)
qed


lemma read_until_returns:
  assumes "\<forall>k. \<exists>j\<ge>k. 0 < fst (ev j)"
  shows "\<exists>lines w'. read_until ev e x tmo w = Some (lines, w')"
proof -
  have "\<exists>lines' w'. read_until_loop ev x (1000 * (case tmo of None \<Rightarrow> timeout e | Some t \<Rightarrow> t))
          (clock w) w [] = Some (lines', w') \<and> True"
    by (rule read_until_loop_rule [OF assms, where I = "\<lambda>w lines. True"]) simp_all
  then show ?thesis by (simp add: read_until_def)
qed

lemma read_until_never:
  assumes "\<forall>k. \<exists>j\<ge>k. 0 < fst (ev j)"
    and never: "\<forall>k line. snd (ev k) = Some line \<longrightarrow> \<not> contains x line"
  shows "\<exists>lines w'. read_until ev e x (Some t) w = Some (lines, w')
           \<and> \<not> list_ex (contains x) lines
           \<and> ((\<forall>k. fst (ev k) \<le> 100) \<longrightarrow> 0 \<le> t \<longrightarrow> clock w' - clock w < 1000 * t + 100)"
proof -
  let ?I = "\<lambda>(w'::io) lines. \<not> list_ex (contains x) lines
      \<and> ((\<forall>k. fst (ev k) \<le> 100) \<longrightarrow> 0 \<le> t \<longrightarrow> clock w' - clock w < 1000 * t + 100)"
  have "\<exists>lines' w'. read_until_loop ev x (1000 * t) (clock w) w [] = Some (lines', w') \<and> ?I w' lines'"
  proof (rule read_until_loop_rule [OF assms(1), where I = ?I])
    show "?I w []" by simp
  next
    fix w' lines
    assume "?I w' lines" "clock w' - clock w < 1000 * t" "snd (ev (cursor w')) = None"
    then show "?I (poll ev w') lines"
      by (auto simp: poll_fields dest: spec [where x = "cursor w'"])
  next
    fix w' lines l
    assume "?I w' lines" "clock w' - clock w < 1000 * t" "snd (ev (cursor w')) = Some l"
    then show "?I (poll ev w') (lines @ [l])"
      using never by (auto simp: poll_fields dest: spec [where x = "cursor w'"])
  qed
  then show ?thesis by (simp add: read_until_def)
qed





lemma is_ready_returns:
  assumes "\<forall>k. \<exists>j\<ge>k. 0 < fst (ev j)"
  shows "\<exists>w' b. is_ready ev e t w = Some (w', Inr b)"
proof (cases "send_command e ''isready''")
  case (Inl exn)
  then show ?thesis by (auto simp: is_ready_def)
next
  case (Inr u)
  from read_until_returns [OF assms, of e "''readyok''" "Some t" w]
  obtain lines w' where "read_until ev e ''readyok'' (Some t) w = Some (lines, w')" by blast
  with Inr show ?thesis by (auto simp: is_ready_def)
qed

lemma is_ready_never:
  assumes "\<forall>k. \<exists>j\<ge>k. 0 < fst (ev j)"
    and "\<forall>k line. snd (ev k) = Some line \<longrightarrow> \<not> contains ''readyok'' line"
  shows "\<exists>w'. is_ready ev e t w = Some (w', Inr False)"
proof (cases "send_command e ''isready''")
  case (Inl exn)
  then show ?thesis by (auto simp: is_ready_def)
next
  case (Inr u)
  from read_until_never [OF assms, of e t w]
  obtain lines w' where "read_until ev e ''readyok'' (Some t) w = Some (lines, w')"
    "\<not> list_ex (contains ''readyok'') lines" by blast
  with Inr show ?thesis by (auto simp: is_ready_def)
qed

lemma initialize_returns:
  assumes "\<forall>k. \<exists>j\<ge>k. 0 < fst (ev j)"
  shows "\<exists>s b. initialize ev e w = Some (s, Inr b)"
proof (cases "send_command e ''uci''")
  case (Inl exn)
  then show ?thesis by (auto simp: initialize_def initialize_try_def)
next
  case (Inr u)
  from read_until_returns [OF assms, of e "''uciok''" "Some 10" w]
  obtain lines w1 where r: "read_until ev e ''uciok'' (Some 10) w = Some (lines, w1)" by blast
  from is_ready_returns [OF assms, of "parse_info e lines" 5 w1]
  obtain w2 b where "is_ready ev (parse_info e lines) 5 w1 = Some (w2, Inr b)" by blast
  with Inr r show ?thesis by (auto simp: initialize_def initialize_try_def)
qed

lemma initialize_no_readyok:
  assumes "\<forall>k. \<exists>j\<ge>k. 0 < fst (ev j)"
    and "\<forall>k line. snd (ev k) = Some line \<longrightarrow> \<not> contains ''readyok'' line"
  shows "\<exists>s. initialize ev e w = Some (s, Inr False)"
proof (cases "send_command e ''uci''")
  case (Inl exn)
  then show ?thesis by (auto simp: initialize_def initialize_try_def)
next
  case (Inr u)
  from read_until_returns [OF assms(1), of e "''uciok''" "Some 10" w]
  obtain lines w1 where r: "read_until ev e ''uciok'' (Some 10) w = Some (lines, w1)" by blast
  from is_ready_never [OF assms, of "parse_info e lines" 5 w1]
  obtain w2 where "is_ready ev (parse_info e lines) 5 w1 = Some (w2, Inr False)" by blast
  with Inr r show ?thesis by (auto simp: initialize_def initialize_try_def)
qed

lemma initialize_no_uciok:
  assumes "\<forall>k. \<exists>j\<ge>k. 0 < fst (ev j)"
    and "\<forall>k line. snd (ev k) = Some line \<longrightarrow> \<not> contains ''uciok'' line"
  shows "\<exists>w'. initialize ev e w = Some ((e, w'), Inr False)
           \<and> ((\<forall>k. fst (ev k) \<le> 100) \<longrightarrow> clock w' - clock w < 10000 + 100)"
proof (cases "send_command e ''uci''")
  case (Inl exn)
  then have "initialize ev e w = Some ((e, w), Inr False)"
    by (simp add: initialize_def initialize_try_def)
  then show ?thesis by simp
next
  case (Inr u)
  from read_until_never [OF assms, of e 10 w]
  obtain lines w1 where r: "read_until ev e ''uciok'' (Some 10) w = Some (lines, w1)"
    "\<not> list_ex (contains ''uciok'') lines"
    "(\<forall>k. fst (ev k) \<le> 100) \<longrightarrow> clock w1 - clock w < 10000 + 100" by auto
  with Inr have "initialize ev e w = Some ((e, w1), Inr False)"
    by (simp add: initialize_def initialize_try_def)
  with r(3) show ?thesis by blast
qed

text \<open>
  C6. Provided the clock advances again and again while the client polls its queue: for
  an engine none of whose lines contains \<open>uciok\<close>, \<open>initialize\<close> returns \<open>False\<close>, leaves
  the client unchanged and raises nothing, and when no poll blocks longer than its 100
  milliseconds it returns less than 10 seconds plus 100 milliseconds after it was
  called; for an engine none of whose lines contains \<open>readyok\<close>, so that the readiness
  probe fails, it returns \<open>False\<close> as well; and in every case it returns a bool, never
  an exception.
\<close>

theorem initialize_returns_false:
  assumes "\<forall>k. \<exists>j\<ge>k. 0 < fst (ev j)"
  shows "((\<forall>k line. snd (ev k) = Some line \<longrightarrow> \<not> contains ''uciok'' line) \<longrightarrow>
            (\<exists>w'. initialize ev e w = Some ((e, w'), Inr False)
               \<and> ((\<forall>k. fst (ev k) \<le> 100) \<longrightarrow> clock w' - clock w < 10000 + 100)))
       \<and> ((\<forall>k line. snd (ev k) = Some line \<longrightarrow> \<not> contains ''readyok'' line) \<longrightarrow>
            (\<exists>s. initialize ev e w = Some (s, Inr False)))
       \<and> (\<exists>s b. initialize ev e w = Some (s, Inr b))"
  using initialize_no_uciok [OF assms] initialize_no_readyok [OF assms] initialize_returns [OF assms]
  by blast

theorem initialize_returns_false_witness:
  "\<exists>w'. initialize chatty running_engine \<lparr>clock = 0, cursor = 0\<rparr>
            = Some ((running_engine, w'), Inr False)
        \<and> clock w' < 10100"
proof -
  have adv: "\<forall>k. \<exists>j\<ge>k. 0 < fst (chatty j)"
    by (auto simp: chatty_def)
  have never: "\<forall>k line. snd (chatty k) = Some line \<longrightarrow> \<not> contains ''uciok'' line"
    by (simp add: chatty_def)
  have short: "\<forall>k. fst (chatty k) \<le> 100"
    by (simp add: chatty_def)
  from initialize_returns_false [OF adv, of running_engine "\<lparr>clock = 0, cursor = 0\<rparr>"] never short
  show ?thesis by simp
qed

subsection \<open>The option parser\<close>

declare match_name.simps [simp del]






lemma not_space_t [simp]: "\<not> is_space CHR ''t''" "is_space CHR '' ''"
  by (simp_all add: is_space_def)





















subsection \<open>The options of the handshake\<close>












end
